theory Spec2Isabelle
  imports Main "HOL-Library.Word"
begin

section \<open>JavaScript strings\<close>

text \<open>
  A JavaScript string is a sequence of UTF-16 code units. The handlers compare and copy
  code units only, so a string is a list of 16-bit words. \<open>js\<close> writes an ASCII literal
  as such a list.
\<close>

type_synonym code_unit = "16 word"
type_synonym jsstring = "code_unit list"

definition js :: "string \<Rightarrow> jsstring" where
  "js s = map of_char s"

abbreviation (input) TAB :: code_unit where "TAB \<equiv> 0x09"
abbreviation (input) LF :: code_unit where "LF \<equiv> 0x0A"
abbreviation (input) CR :: code_unit where "CR \<equiv> 0x0D"
abbreviation (input) QUOTE :: code_unit where "QUOTE \<equiv> 0x22"
abbreviation (input) COMMA :: code_unit where "COMMA \<equiv> 0x2C"
abbreviation (input) BACKSLASH :: code_unit where "BACKSLASH \<equiv> 0x5C"
abbreviation (input) RBRACKET :: code_unit where "RBRACKET \<equiv> 0x5D"
abbreviation (input) LBRACE :: code_unit where "LBRACE \<equiv> 0x7B"
abbreviation (input) RBRACE :: code_unit where "RBRACE \<equiv> 0x7D"
abbreviation (input) LETTER_n :: code_unit where "LETTER_n \<equiv> 0x6E"
abbreviation (input) LETTER_t :: code_unit where "LETTER_t \<equiv> 0x74"
abbreviation (input) LINE_SEP :: code_unit where "LINE_SEP \<equiv> 0x2028"
abbreviation (input) PARA_SEP :: code_unit where "PARA_SEP \<equiv> 0x2029"

text \<open>
  \<open>String.prototype.indexOf\<close> and \<open>lastIndexOf\<close> with a one-character needle: the index
  of the first (last) occurrence, \<open>-1\<close> when there is none.
\<close>

fun indexOf :: "jsstring \<Rightarrow> code_unit \<Rightarrow> int" where
  "indexOf [] c = - 1"
| "indexOf (x # xs) c =
     (if x = c then 0
      else (let r = indexOf xs c in if r = - 1 then - 1 else r + 1))"

fun lastIndexOf :: "jsstring \<Rightarrow> code_unit \<Rightarrow> int" where
  "lastIndexOf [] c = - 1"
| "lastIndexOf (x # xs) c =
     (let r = lastIndexOf xs c in
      if r \<noteq> - 1 then r + 1 else if x = c then 0 else - 1)"

text \<open>
  \<open>String.prototype.slice(a, b)\<close>: a negative index counts from the end, both indices
  are clamped to the string, and an empty range gives the empty string.
\<close>

definition slice :: "jsstring \<Rightarrow> int \<Rightarrow> int \<Rightarrow> jsstring" where
  "slice s a b =
     (let n = int (length s);
          from = (if a < 0 then max (n + a) 0 else min a n);
          to = (if b < 0 then max (n + b) 0 else min b n)
      in take (nat (to - from)) (drop (nat from) s))"

section \<open>The extractor\<close>

text \<open>
  \<^verbatim>\<open>
  function extractJsonObject(text) {
    const start = text.indexOf("{");
    const end = text.lastIndexOf("}");
    if (start === -1 || end === -1 || end <= start) return null;
    return text.slice(start, end + 1);
  }
  \<close>
  \<open>null\<close> is \<open>None\<close>.
\<close>

definition extractJsonObject :: "jsstring \<Rightarrow> jsstring option" where
  "extractJsonObject text =
     (let start = indexOf text LBRACE;
          end = lastIndexOf text RBRACE
      in if start = - 1 \<or> end = - 1 \<or> end \<le> start then None
         else Some (slice text start (end + 1)))"

section \<open>The sanitizer\<close>

text \<open>
  \<open>s.replace(/c/g, r)\<close> for a one-character pattern \<open>c\<close> and a replacement \<open>r\<close> without
  dollar patterns: every occurrence of \<open>c\<close> becomes \<open>r\<close>.
\<close>

definition replace_unit :: "code_unit \<Rightarrow> jsstring \<Rightarrow> jsstring \<Rightarrow> jsstring" where
  "replace_unit c r s = concat (map (\<lambda>x. if x = c then r else [x]) s)"

text \<open>
  The class \<open>\s\<close> of a JavaScript regular expression without the unicode flag: the
  WhiteSpace and LineTerminator code units.
\<close>

definition is_space :: "code_unit \<Rightarrow> bool" where
  "is_space c =
     (c = 0x09 \<or> c = 0x0A \<or> c = 0x0B \<or> c = 0x0C \<or> c = 0x0D \<or> c = 0x20 \<or> c = 0xA0 \<or>
      c = 0x1680 \<or> (0x2000 \<le> c \<and> c \<le> 0x200A) \<or> c = 0x2028 \<or> c = 0x2029 \<or>
      c = 0x202F \<or> c = 0x205F \<or> c = 0x3000 \<or> c = 0xFEFF)"

definition is_closer :: "code_unit \<Rightarrow> bool" where
  "is_closer c = (c = RBRACE \<or> c = RBRACKET)"

text \<open>
  \<^verbatim>\<open>.replace(/,\s*([}\]])/g, "$1")\<close>: the string is searched from left to right. At a
  comma the greedy \<open>\s*\<close> takes all the white space that follows; when a closing brace or
  bracket comes next, the match is replaced by that closer and the search goes on behind
  it. Giving back white space cannot help, as the next character is then white space and
  no closer, so otherwise there is no match at this comma, it is copied and the search
  goes on at the next character.
\<close>

function strip_trailing_commas :: "jsstring \<Rightarrow> jsstring" where
  "strip_trailing_commas [] = []"
| "strip_trailing_commas (c # cs) =
     (if c = COMMA then
        (case dropWhile is_space cs of
           [] \<Rightarrow> c # strip_trailing_commas cs
         | d # rest \<Rightarrow>
             if is_closer d then d # strip_trailing_commas rest
             else c # strip_trailing_commas cs)
      else c # strip_trailing_commas cs)"
  by pat_completeness auto
termination
proof (relation "measure length")
  fix c :: code_unit and cs d rest
  assume "dropWhile is_space cs = d # rest"
  then have "length (d # rest) \<le> length cs"
    by (metis length_dropWhile_le)
  then show "(rest, c # cs) \<in> measure length" by simp
qed simp_all

text \<open>
  \<^verbatim>\<open>
  function sanitizeCommonBreakers(s) {
    return s
      .replace(/\u2028/g, "\\n")
      .replace(/\u2029/g, "\\n")
      .replace(/,\s*([}\]])/g, "$1");
  }
  \<close>
\<close>

definition sanitizeCommonBreakers :: "jsstring \<Rightarrow> jsstring" where
  "sanitizeCommonBreakers s =
     strip_trailing_commas
       (replace_unit PARA_SEP [BACKSLASH, LETTER_n]
         (replace_unit LINE_SEP [BACKSLASH, LETTER_n] s))"

section \<open>The scanner\<close>

text \<open>
  The three variables of the loop of \<open>escapeNewlinesInsideStrings\<close>, and its body as one
  step on them: every \<open>continue\<close> ends the step.
\<close>

record scanner =
  out :: jsstring
  inString :: bool
  escaped :: bool

definition step :: "scanner \<Rightarrow> code_unit \<Rightarrow> scanner" where
  "step st ch =
     (if inString st then
        (if escaped st then st\<lparr>out := out st @ [ch], escaped := False\<rparr>
         else if ch = BACKSLASH then st\<lparr>out := out st @ [ch], escaped := True\<rparr>
         else if ch = QUOTE then st\<lparr>out := out st @ [ch], inString := False\<rparr>
         else if ch = LF then st\<lparr>out := out st @ [BACKSLASH, LETTER_n]\<rparr>
         else if ch = CR then st
         else if ch = TAB then st\<lparr>out := out st @ [BACKSLASH, LETTER_t]\<rparr>
         else st\<lparr>out := out st @ [ch]\<rparr>)
      else
        (if ch = QUOTE then st\<lparr>out := out st @ [ch], inString := True\<rparr>
         else st\<lparr>out := out st @ [ch]\<rparr>))"

definition scanner_init :: scanner where
  "scanner_init = \<lparr>out = [], inString = False, escaped = False\<rparr>"

definition run :: "scanner \<Rightarrow> jsstring \<Rightarrow> scanner" where
  "run st s = foldl step st s"

definition escapeNewlinesInsideStrings :: "jsstring \<Rightarrow> jsstring" where
  "escapeNewlinesInsideStrings jsonStr = out (run scanner_init jsonStr)"

text \<open>
  The characters the scanner reads outside string context, in order: those it reads
  with \<open>inString\<close> false (an opening quote is one of them, a closing quote is not).
\<close>

fun outside_from :: "scanner \<Rightarrow> jsstring \<Rightarrow> jsstring" where
  "outside_from st [] = []"
| "outside_from st (ch # cs) =
     (if inString st then outside_from (step st ch) cs
      else ch # outside_from (step st ch) cs)"

definition outside :: "jsstring \<Rightarrow> jsstring" where
  "outside s = outside_from scanner_init s"

text \<open>The value of \<open>inString\<close> before each character of the input is read.\<close>

fun inString_trace :: "scanner \<Rightarrow> jsstring \<Rightarrow> bool list" where
  "inString_trace st [] = []"
| "inString_trace st (ch # cs) = inString st # inString_trace (step st ch) cs"

text \<open>
  The carriage returns that the scanner drops: those it reads inside a string and not
  behind a backslash. The line feeds and tabs it reads there are the characters it
  writes as two.
\<close>

fun dropped_from :: "scanner \<Rightarrow> jsstring \<Rightarrow> nat" where
  "dropped_from st [] = 0"
| "dropped_from st (ch # cs) =
     (if inString st \<and> \<not> escaped st \<and> ch = CR then 1 else 0) + dropped_from (step st ch) cs"

definition dropped :: "jsstring \<Rightarrow> nat" where
  "dropped s = dropped_from scanner_init s"

fun doubled_from :: "scanner \<Rightarrow> jsstring \<Rightarrow> nat" where
  "doubled_from st [] = 0"
| "doubled_from st (ch # cs) =
     (if inString st \<and> \<not> escaped st \<and> (ch = LF \<or> ch = TAB) then 1 else 0) +
     doubled_from (step st ch) cs"

definition doubled :: "jsstring \<Rightarrow> nat" where
  "doubled s = doubled_from scanner_init s"

section \<open>Strict parsing\<close>

text \<open>
  \<open>JSON.parse\<close> is the platform's, not this repository's. It is modelled after the JSON
  grammar of ECMA-404 as ECMAScript reads it: a lexical grammar (white space, punctuators,
  strings, numbers, the three literals) and a syntactic grammar over its tokens. A parsed
  value is kept as the syntax tree of the text: a number keeps its spelling and an object
  keeps its members as written. JavaScript identifies more (spellings of one number, a
  repeated key, the order of keys), so equal trees are equal JavaScript values, and the
  model accepts exactly the texts that \<open>JSON.parse\<close> accepts.
\<close>

datatype json =
    JNull
  | JBool bool
  | JNum jsstring
  | JStr jsstring
  | JArr "json list"
  | JObj "(jsstring \<times> json) list"

datatype token =
    TLBrace | TRBrace | TLBracket | TRBracket | TColon | TComma
  | TString jsstring | TNumber jsstring | TTrue | TFalse | TNull

subsection \<open>Lexical grammar\<close>

definition is_json_ws :: "code_unit \<Rightarrow> bool" where
  "is_json_ws c = (c = 0x09 \<or> c = 0x0A \<or> c = 0x0D \<or> c = 0x20)"

definition is_digit :: "code_unit \<Rightarrow> bool" where
  "is_digit c = (0x30 \<le> c \<and> c \<le> 0x39)"

definition hex_value :: "code_unit \<Rightarrow> code_unit option" where
  "hex_value c =
     (if 0x30 \<le> c \<and> c \<le> 0x39 then Some (c - 0x30)
      else if 0x41 \<le> c \<and> c \<le> 0x46 then Some (c - 0x37)
      else if 0x61 \<le> c \<and> c \<le> 0x66 then Some (c - 0x57)
      else None)"

definition unescape :: "code_unit \<Rightarrow> code_unit option" where
  "unescape c =
     (if c = 0x22 then Some 0x22
      else if c = 0x5C then Some 0x5C
      else if c = 0x2F then Some 0x2F
      else if c = 0x62 then Some 0x08
      else if c = 0x66 then Some 0x0C
      else if c = 0x6E then Some 0x0A
      else if c = 0x72 then Some 0x0D
      else if c = 0x74 then Some 0x09
      else None)"

definition hex4 :: "code_unit \<Rightarrow> code_unit \<Rightarrow> code_unit \<Rightarrow> code_unit \<Rightarrow> code_unit option" where
  "hex4 a b c d =
     (case (hex_value a, hex_value b, hex_value c, hex_value d) of
        (Some x, Some y, Some z, Some w) \<Rightarrow> Some (((x * 16 + y) * 16 + z) * 16 + w)
      | _ \<Rightarrow> None)"

text \<open>
  The characters of a string token after its opening quote: the decoded string and the
  input behind the closing quote. A raw control character below U+0020, an unknown escape
  and a missing closing quote are lexical errors.
\<close>

definition cons_char :: "code_unit \<Rightarrow> (jsstring \<times> jsstring) option \<Rightarrow> (jsstring \<times> jsstring) option" where
  "cons_char c r = (case r of None \<Rightarrow> None | Some (v, rest) \<Rightarrow> Some (c # v, rest))"

fun lex_string :: "jsstring \<Rightarrow> (jsstring \<times> jsstring) option" where
  "lex_string [] = None"
| "lex_string (c # cs) =
     (if c = QUOTE then Some ([], cs)
      else if c = BACKSLASH then
        (case cs of
           [] \<Rightarrow> None
         | e # cs1 \<Rightarrow>
             if e = 0x75 then
               (case cs1 of
                  h1 # h2 # h3 # h4 # cs2 \<Rightarrow>
                    (case hex4 h1 h2 h3 h4 of
                       None \<Rightarrow> None
                     | Some u \<Rightarrow> cons_char u (lex_string cs2))
                | _ \<Rightarrow> None)
             else
               (case unescape e of
                  None \<Rightarrow> None
                | Some u \<Rightarrow> cons_char u (lex_string cs1)))
      else if c < 0x20 then None
      else cons_char c (lex_string cs))"

text \<open>
  A number token: an optional minus sign, an integer part without leading zeros, an
  optional fraction and an optional exponent.
\<close>

definition lex_digits :: "jsstring \<Rightarrow> (jsstring \<times> jsstring) option" where
  "lex_digits cs =
     (let ds = takeWhile is_digit cs in
      if ds = [] then None else Some (ds, dropWhile is_digit cs))"

definition lex_int :: "jsstring \<Rightarrow> (jsstring \<times> jsstring) option" where
  "lex_int cs =
     (case cs of
        [] \<Rightarrow> None
      | d # r \<Rightarrow> if d = 0x30 then Some ([d], r) else lex_digits cs)"

definition lex_frac :: "jsstring \<Rightarrow> (jsstring \<times> jsstring) option" where
  "lex_frac cs =
     (case cs of
        [] \<Rightarrow> Some ([], cs)
      | d # r \<Rightarrow>
          if d = 0x2E then
            (case lex_digits r of None \<Rightarrow> None | Some (ds, r') \<Rightarrow> Some (d # ds, r'))
          else Some ([], cs))"

definition lex_exp :: "jsstring \<Rightarrow> (jsstring \<times> jsstring) option" where
  "lex_exp cs =
     (case cs of
        [] \<Rightarrow> Some ([], cs)
      | e # r \<Rightarrow>
          if e = 0x65 \<or> e = 0x45 then
            (case r of
               [] \<Rightarrow> None
             | s # r' \<Rightarrow>
                 if s = 0x2B \<or> s = 0x2D then
                   (case lex_digits r' of None \<Rightarrow> None | Some (ds, r'') \<Rightarrow> Some (e # s # ds, r''))
                 else
                   (case lex_digits r of None \<Rightarrow> None | Some (ds, r'') \<Rightarrow> Some (e # ds, r'')))
          else Some ([], cs))"

definition lex_number :: "jsstring \<Rightarrow> (jsstring \<times> jsstring) option" where
  "lex_number cs =
     (let (sign, r0) = (case cs of [] \<Rightarrow> ([], cs) | c # r \<Rightarrow> if c = 0x2D then ([c], r) else ([], cs)) in
      case lex_int r0 of
        None \<Rightarrow> None
      | Some (ip, r1) \<Rightarrow>
          (case lex_frac r1 of
             None \<Rightarrow> None
           | Some (fp, r2) \<Rightarrow>
               (case lex_exp r2 of
                  None \<Rightarrow> None
                | Some (ep, r3) \<Rightarrow> Some (sign @ ip @ fp @ ep, r3))))"

definition lex_literal :: "jsstring \<Rightarrow> (token \<times> jsstring) option" where
  "lex_literal cs =
     (if take 4 cs = js ''true'' then Some (TTrue, drop 4 cs)
      else if take 5 cs = js ''false'' then Some (TFalse, drop 5 cs)
      else if take 4 cs = js ''null'' then Some (TNull, drop 4 cs)
      else None)"

definition punctuator :: "code_unit \<Rightarrow> token option" where
  "punctuator c =
     (if c = 0x7B then Some TLBrace
      else if c = 0x7D then Some TRBrace
      else if c = 0x5B then Some TLBracket
      else if c = 0x5D then Some TRBracket
      else if c = 0x3A then Some TColon
      else if c = 0x2C then Some TComma
      else None)"

definition next_token :: "jsstring \<Rightarrow> (token \<times> jsstring) option" where
  "next_token cs =
     (case cs of
        [] \<Rightarrow> None
      | c # r \<Rightarrow>
          (case punctuator c of
             Some t \<Rightarrow> Some (t, r)
           | None \<Rightarrow>
               if c = QUOTE then
                 (case lex_string r of None \<Rightarrow> None | Some (v, r') \<Rightarrow> Some (TString v, r'))
               else if c = 0x2D \<or> is_digit c then
                 (case lex_number cs of None \<Rightarrow> None | Some (n, r') \<Rightarrow> Some (TNumber n, r'))
               else lex_literal cs))"

text \<open>Every token takes at least one character, so tokenizing terminates.\<close>

lemma cons_char_Some: "cons_char c r = Some (v, rest) \<Longrightarrow> \<exists>v'. r = Some (v', rest)"
  by (auto simp: cons_char_def split: option.splits)

lemma lex_string_length: "lex_string cs = Some (v, r) \<Longrightarrow> length r < length cs"
proof (induction cs arbitrary: v r rule: lex_string.induct)
  case 1
  then show ?case by simp
next
  case (2 c cs)
  show ?case
  proof (cases "c = QUOTE")
    case True
    with "2.prems" show ?thesis by simp
  next
    case nq: False
    show ?thesis
    proof (cases "c = BACKSLASH")
      case True
      with nq "2.prems" obtain e cs1 where cs: "cs = e # cs1"
        by (cases cs) auto
      show ?thesis
      proof (cases "e = 0x75")
        case u: True
        with nq True cs "2.prems" obtain h1 h2 h3 h4 cs2 where cs1: "cs1 = h1 # h2 # h3 # h4 # cs2"
          by (auto split: list.splits)
        with nq True cs u "2.prems" obtain w where w: "hex4 h1 h2 h3 h4 = Some w"
          by (auto split: option.splits)
        with nq True cs u cs1 "2.prems" obtain v' where "lex_string cs2 = Some (v', r)"
          by (auto dest: cons_char_Some)
        with "2.IH"(1) [OF nq True cs u cs1 _ _ _ w] have "length r < length cs2"
          by blast
        with cs cs1 show ?thesis by simp
      next
        case nu: False
        with nq True cs "2.prems" obtain w where w: "unescape e = Some w"
          by (auto split: option.splits)
        with nq True cs nu "2.prems" obtain v' where "lex_string cs1 = Some (v', r)"
          by (auto dest: cons_char_Some)
        with "2.IH"(2) [OF nq True cs nu w] have "length r < length cs1"
          by blast
        with cs show ?thesis by simp
      qed
    next
      case nb: False
      with nq "2.prems" have ok: "\<not> c < 0x20"
        by (auto split: if_splits)
      with nq nb "2.prems" obtain v' where "lex_string cs = Some (v', r)"
        by (auto dest: cons_char_Some)
      with "2.IH"(3) [OF nq nb ok] have "length r < length cs"
        by blast
      then show ?thesis by simp
    qed
  qed
qed

lemma lex_digits_consumes:
  assumes "lex_digits cs = Some (v, r)"
  shows "cs = v @ r \<and> v \<noteq> [] \<and> QUOTE \<notin> set v"
proof -
  from assms have v: "v = takeWhile is_digit cs" "v \<noteq> []" and r: "r = dropWhile is_digit cs"
    by (auto simp: lex_digits_def Let_def split: if_splits)
  have "\<forall>d \<in> set (takeWhile is_digit cs). is_digit d"
    by (auto dest: set_takeWhileD)
  then have "QUOTE \<notin> set (takeWhile is_digit cs)"
    by (auto simp: is_digit_def)
  with v r show ?thesis by simp
qed

lemma lex_int_consumes:
  assumes "lex_int cs = Some (v, r)"
  shows "cs = v @ r \<and> v \<noteq> [] \<and> QUOTE \<notin> set v"
proof (cases cs)
  case Nil
  with assms show ?thesis by (simp add: lex_int_def)
next
  case (Cons d r0)
  show ?thesis
  proof (cases "d = 0x30")
    case True
    with assms Cons show ?thesis by (auto simp: lex_int_def)
  next
    case False
    with assms Cons have "lex_digits cs = Some (v, r)" by (simp add: lex_int_def)
    then show ?thesis by (rule lex_digits_consumes)
  qed
qed

lemma lex_frac_consumes:
  assumes "lex_frac cs = Some (v, r)"
  shows "cs = v @ r \<and> QUOTE \<notin> set v"
proof (cases cs)
  case Nil
  with assms show ?thesis by (simp add: lex_frac_def)
next
  case (Cons d r0)
  show ?thesis
  proof (cases "d = 0x2E")
    case False
    with assms Cons show ?thesis by (auto simp: lex_frac_def)
  next
    case True
    with assms Cons obtain ds where ds: "lex_digits r0 = Some (ds, r)" and v: "v = d # ds"
      by (auto simp: lex_frac_def split: option.splits)
    from lex_digits_consumes [OF ds] Cons v True show ?thesis by simp
  qed
qed

lemma lex_exp_consumes:
  assumes "lex_exp cs = Some (v, r)"
  shows "cs = v @ r \<and> QUOTE \<notin> set v"
proof (cases cs)
  case Nil
  with assms show ?thesis by (simp add: lex_exp_def)
next
  case (Cons e r0)
  show ?thesis
  proof (cases "e = 0x65 \<or> e = 0x45")
    case False
    with assms Cons show ?thesis by (auto simp: lex_exp_def)
  next
    case e: True
    with assms Cons obtain s r1 where r0: "r0 = s # r1"
      by (cases r0) (auto simp: lex_exp_def)
    show ?thesis
    proof (cases "s = 0x2B \<or> s = 0x2D")
      case True
      with assms Cons e r0 obtain ds where ds: "lex_digits r1 = Some (ds, r)" and v: "v = e # s # ds"
        by (auto simp: lex_exp_def split: option.splits)
      from lex_digits_consumes [OF ds] Cons r0 v e True show ?thesis by auto
    next
      case False
      with assms Cons e r0 obtain ds where ds: "lex_digits r0 = Some (ds, r)" and v: "v = e # ds"
        by (auto simp: lex_exp_def split: option.splits)
      from lex_digits_consumes [OF ds] Cons v e show ?thesis by auto
    qed
  qed
qed

lemma lex_number_consumes:
  assumes "lex_number cs = Some (v, r)"
  shows "cs = v @ r \<and> v \<noteq> [] \<and> QUOTE \<notin> set v"
proof -
  obtain sign r0 where s: "(case cs of [] \<Rightarrow> ([], cs) | c # r \<Rightarrow> if c = 0x2D then ([c], r) else ([], cs)) = (sign, r0)"
    by (cases "(case cs of [] \<Rightarrow> ([], cs) | c # r \<Rightarrow> if c = 0x2D then ([c], r) else ([], cs))") auto
  then have l0: "cs = sign @ r0 \<and> QUOTE \<notin> set sign"
    by (cases cs) (auto split: if_splits)
  from assms s obtain ip r1 where i: "lex_int r0 = Some (ip, r1)"
    by (cases "lex_int r0") (auto simp: lex_number_def)
  from assms s i obtain fp r2 where f: "lex_frac r1 = Some (fp, r2)"
    by (cases "lex_frac r1") (auto simp: lex_number_def)
  from assms s i f obtain ep where e: "lex_exp r2 = Some (ep, r)"
    by (cases "lex_exp r2") (auto simp: lex_number_def)
  from assms s i f e have v: "v = sign @ ip @ fp @ ep"
    by (simp add: lex_number_def)
  from lex_int_consumes [OF i] lex_frac_consumes [OF f] lex_exp_consumes [OF e] l0 v
  show ?thesis by simp
qed

lemma lex_number_length: "lex_number cs = Some (v, r) \<Longrightarrow> length r < length cs"
  using lex_number_consumes [of cs v r] by (cases v) auto

lemma lex_literal_consumes:
  assumes "lex_literal cs = Some (t, r)"
  shows "\<exists>p. cs = p @ r \<and> p \<noteq> [] \<and> QUOTE \<notin> set p"
proof -
  from assms consider "take 4 cs = js ''true''" "r = drop 4 cs" | "take 5 cs = js ''false''" "r = drop 5 cs"
    | "take 4 cs = js ''null''" "r = drop 4 cs"
    by (auto simp: lex_literal_def split: if_splits)
  then show ?thesis
  proof cases
    case 1
    then have "cs = js ''true'' @ r" by (metis append_take_drop_id)
    moreover have "js ''true'' \<noteq> [] \<and> QUOTE \<notin> set (js ''true'')" by (simp add: js_def)
    ultimately show ?thesis by blast
  next
    case 2
    then have "cs = js ''false'' @ r" by (metis append_take_drop_id)
    moreover have "js ''false'' \<noteq> [] \<and> QUOTE \<notin> set (js ''false'')" by (simp add: js_def)
    ultimately show ?thesis by blast
  next
    case 3
    then have "cs = js ''null'' @ r" by (metis append_take_drop_id)
    moreover have "js ''null'' \<noteq> [] \<and> QUOTE \<notin> set (js ''null'')" by (simp add: js_def)
    ultimately show ?thesis by blast
  qed
qed

lemma lex_literal_length: "lex_literal cs = Some (t, r) \<Longrightarrow> length r < length cs"
proof -
  assume "lex_literal cs = Some (t, r)"
  then obtain p where "cs = p @ r" "p \<noteq> []" using lex_literal_consumes by blast
  then show ?thesis by (cases p) auto
qed

lemma next_token_length: "next_token cs = Some (t, r) \<Longrightarrow> length r < length cs"
proof (cases cs)
  case Nil
  assume "next_token cs = Some (t, r)"
  with Nil show ?thesis by (simp add: next_token_def)
next
  case (Cons c r0)
  assume a: "next_token cs = Some (t, r)"
  show ?thesis
  proof (cases "punctuator c")
    case (Some p)
    with a Cons show ?thesis by (simp add: next_token_def)
  next
    case None
    show ?thesis
    proof (cases "c = QUOTE")
      case True
      with a Cons None obtain v where "lex_string r0 = Some (v, r)"
        by (auto simp: next_token_def split: option.splits)
      then have "length r < length r0" by (rule lex_string_length)
      with Cons show ?thesis by simp
    next
      case nq: False
      show ?thesis
      proof (cases "c = 0x2D \<or> is_digit c")
        case True
        with a Cons None nq obtain n where "lex_number cs = Some (n, r)"
          by (auto simp: next_token_def split: option.splits)
        then show ?thesis by (rule lex_number_length)
      next
        case False
        with a Cons None nq have "lex_literal cs = Some (t, r)"
          by (auto simp: next_token_def)
        then show ?thesis by (rule lex_literal_length)
      qed
    qed
  qed
qed

function tokenize :: "jsstring \<Rightarrow> token list option" where
  "tokenize [] = Some []"
| "tokenize (c # cs) =
     (if is_json_ws c then tokenize cs
      else (case next_token (c # cs) of
              None \<Rightarrow> None
            | Some (t, r) \<Rightarrow> (case tokenize r of None \<Rightarrow> None | Some ts \<Rightarrow> Some (t # ts))))"
  by pat_completeness auto
termination
proof (relation "measure length")
  fix c :: code_unit and cs x t r
  assume "next_token (c # cs) = Some x" "(t, r) = x"
  then have "length r < length (c # cs)" by (metis next_token_length)
  then show "(r, c # cs) \<in> measure length" by simp
qed simp_all


subsection \<open>Syntactic grammar\<close>

text \<open>
  The tokens are read by a pushdown machine. A frame is an array or an object that is
  still open: the elements read so far, latest first, or the members read so far and
  the key whose value is being read.
\<close>

datatype frame =
    ArrF "json list"
  | ObjF "(jsstring \<times> json) list" jsstring

datatype pstate =
    PValue "frame list"
  | PArrStart "frame list"
  | PArrNext "json list" "frame list"
  | PObjStart "frame list"
  | PObjKey "(jsstring \<times> json) list" "frame list"
  | PObjColon "(jsstring \<times> json) list" jsstring "frame list"
  | PObjNext "(jsstring \<times> json) list" "frame list"
  | PDone json

fun deliver :: "json \<Rightarrow> frame list \<Rightarrow> pstate" where
  "deliver v [] = PDone v"
| "deliver v (ArrF es # fs) = PArrNext (v # es) fs"
| "deliver v (ObjF ms k # fs) = PObjNext ((k, v) # ms) fs"

fun start_value :: "token \<Rightarrow> frame list \<Rightarrow> pstate option" where
  "start_value (TString s) fs = Some (deliver (JStr s) fs)"
| "start_value (TNumber n) fs = Some (deliver (JNum n) fs)"
| "start_value TTrue fs = Some (deliver (JBool True) fs)"
| "start_value TFalse fs = Some (deliver (JBool False) fs)"
| "start_value TNull fs = Some (deliver JNull fs)"
| "start_value TLBracket fs = Some (PArrStart fs)"
| "start_value TLBrace fs = Some (PObjStart fs)"
| "start_value _ fs = None"

fun pstep :: "pstate \<Rightarrow> token \<Rightarrow> pstate option" where
  "pstep (PValue fs) t = start_value t fs"
| "pstep (PArrStart fs) t =
     (if t = TRBracket then Some (deliver (JArr []) fs) else start_value t (ArrF [] # fs))"
| "pstep (PArrNext es fs) t =
     (if t = TComma then Some (PValue (ArrF es # fs))
      else if t = TRBracket then Some (deliver (JArr (rev es)) fs)
      else None)"
| "pstep (PObjStart fs) t =
     (case t of
        TRBrace \<Rightarrow> Some (deliver (JObj []) fs)
      | TString k \<Rightarrow> Some (PObjColon [] k fs)
      | _ \<Rightarrow> None)"
| "pstep (PObjKey ms fs) t =
     (case t of TString k \<Rightarrow> Some (PObjColon ms k fs) | _ \<Rightarrow> None)"
| "pstep (PObjColon ms k fs) t =
     (if t = TColon then Some (PValue (ObjF ms k # fs)) else None)"
| "pstep (PObjNext ms fs) t =
     (if t = TComma then Some (PObjKey ms fs)
      else if t = TRBrace then Some (deliver (JObj (rev ms)) fs)
      else None)"
| "pstep (PDone v) t = None"

fun parse_tokens :: "pstate \<Rightarrow> token list \<Rightarrow> json option" where
  "parse_tokens st [] = (case st of PDone v \<Rightarrow> Some v | _ \<Rightarrow> None)"
| "parse_tokens st (t # ts) =
     (case pstep st t of None \<Rightarrow> None | Some st' \<Rightarrow> parse_tokens st' ts)"

text \<open>\<open>None\<close> stands for the SyntaxError that \<open>JSON.parse\<close> throws.\<close>

definition json_parse :: "jsstring \<Rightarrow> json option" where
  "json_parse s =
     (case tokenize s of None \<Rightarrow> None | Some ts \<Rightarrow> parse_tokens (PValue []) ts)"

section \<open>The handlers\<close>

text \<open>
  An exception is an Error object with a name and a message. An awaited operation either
  throws or returns.
\<close>

datatype exn = Exn (exn_name: jsstring) (exn_message: jsstring)

datatype 'a attempt = Throws exn | Returns 'a

text \<open>
  The request body and the upstream response bodies, at the shapes the handlers read. An
  absent field is \<open>None\<close>; the vendor's error is any JSON value.
\<close>

record chat_message =
  role :: jsstring
  content :: jsstring

record request_body =
  system :: "jsstring option"
  messages :: "chat_message list option"

text \<open>
  A \<open>Response\<close>: its status, its headers, and the value whose \<open>JSON.stringify\<close> is the body
  (\<open>None\<close> for the \<open>null\<close> body).
\<close>

record response =
  status :: nat
  headers :: "(string \<times> string) list"
  body :: "json option"

record part =
  p_text :: "jsstring option"

record candidate_content =
  parts :: "part list option"

record candidate =
  c_content :: "candidate_content option"

record gemini_data =
  g_error :: "json option"
  candidates :: "candidate list option"

record completion_message =
  cm_content :: "jsstring option"

record choice =
  message :: "completion_message option"

record groq_data =
  q_error :: "json option"
  choices :: "choice list option"

definition options_response :: response where
  "options_response =
     \<lparr>status = 200,
      headers = [(''Access-Control-Allow-Origin'', ''*''),
                 (''Access-Control-Allow-Methods'', ''POST, OPTIONS''),
                 (''Access-Control-Allow-Headers'', ''Content-Type'')],
      body = None\<rparr>"

definition json_response :: "nat \<Rightarrow> json \<Rightarrow> response" where
  "json_response code v =
     \<lparr>status = code,
      headers = [(''Content-Type'', ''application/json''),
                 (''Access-Control-Allow-Origin'', ''*'')],
      body = Some v\<rparr>"

definition error_body :: "json \<Rightarrow> json" where
  "error_body e = JObj [(js ''error'', e)]"

definition envelope :: "jsstring \<Rightarrow> json" where
  "envelope t =
     JObj [(js ''content'', JArr [JObj [(js ''type'', JStr (js ''text'')), (js ''text'', JStr t)]])]"

text \<open>
  The truthiness of a value read from JSON: \<open>null\<close>, \<open>false\<close>, the empty string and the
  numbers whose double is zero are falsy. The double of a number is zero when its digits
  are all zero or when it is at most 2 to the power -1075, half of the least positive
  double, and so is rounded to zero.
\<close>

definition digits_int :: "jsstring \<Rightarrow> int" where
  "digits_int ds = foldl (\<lambda>a d. 10 * a + uint (d - 0x30)) 0 ds"

definition number_is_zero :: "jsstring \<Rightarrow> bool" where
  "number_is_zero n =
     (let unsigned = (case n of [] \<Rightarrow> [] | c # r \<Rightarrow> if c = 0x2D then r else n);
          ip = takeWhile is_digit unsigned;
          r1 = dropWhile is_digit unsigned;
          r2 = (case r1 of [] \<Rightarrow> [] | d # r \<Rightarrow> if d = 0x2E then r else []);
          fp = takeWhile is_digit r2;
          r3 = (case r1 of [] \<Rightarrow> [] | d # r \<Rightarrow> if d = 0x2E then dropWhile is_digit r else r1);
          ex = (case r3 of
                  [] \<Rightarrow> 0
                | e # r \<Rightarrow>
                    (case r of
                       [] \<Rightarrow> 0
                     | sg # r' \<Rightarrow>
                         if sg = 0x2D then - digits_int r'
                         else if sg = 0x2B then digits_int r'
                         else digits_int r));
          m = digits_int (ip @ fp);
          e10 = ex - int (length fp)
      in m = 0 \<or> (e10 < 0 \<and> m * 2 ^ 1075 \<le> 10 ^ nat (- e10)))"

fun truthy_json :: "json \<Rightarrow> bool" where
  "truthy_json JNull = False"
| "truthy_json (JBool b) = b"
| "truthy_json (JNum n) = (\<not> number_is_zero n)"
| "truthy_json (JStr s) = (s \<noteq> [])"
| "truthy_json (JArr xs) = True"
| "truthy_json (JObj ms) = True"

text \<open>\<open>if (data.error)\<close>: the vendor's error when it is there and truthy.\<close>

definition vendor_error :: "json option \<Rightarrow> json option" where
  "vendor_error e =
     (case e of None \<Rightarrow> None | Some v \<Rightarrow> if truthy_json v then Some v else None)"

text \<open>\<open>if (s)\<close> and \<open>s || ''\<close> for a string that may be absent.\<close>

definition truthy :: "jsstring option \<Rightarrow> bool" where
  "truthy s = (case s of None \<Rightarrow> False | Some t \<Rightarrow> t \<noteq> [])"

definition or_empty :: "jsstring option \<Rightarrow> jsstring" where
  "or_empty s = (case s of None \<Rightarrow> [] | Some t \<Rightarrow> t)"

text \<open>
  The TypeErrors of the engine (V8's texts) for destructuring a \<open>null\<close> body and for
  calling \<open>find\<close> on absent \<open>messages\<close>.
\<close>

definition null_destructure :: exn where
  "null_destructure =
     Exn (js ''TypeError'')
       (js ''Cannot destructure property '' @ [0x27] @ js ''system'' @ [0x27] @ js '' of '' @ [0x27] @
        js ''body'' @ [0x27] @ js '' as it is null.'')"

definition undefined_find :: exn where
  "undefined_find =
     Exn (js ''TypeError'')
       (js ''Cannot read properties of undefined (reading '' @ [0x27] @ js ''find'' @ [0x27] @ js '')'')"

subsection \<open>src/api/gemini.js\<close>

text \<open>
  \<open>fetch\<close> stands for the call to the vendor followed by \<open>response.json()\<close>: it takes what
  is sent and throws or returns the decoded body. \<open>gemini_try\<close> is the \<open>try\<close> block,
  \<open>handler_gemini\<close> the whole handler with its \<open>catch\<close>.
  \<^verbatim>\<open>
  const parts = data.candidates?.[0]?.content?.parts || [];
  const text = parts.map(p => p.text || '').join('');
  \<close>
\<close>

definition userMessage :: "chat_message list \<Rightarrow> jsstring" where
  "userMessage msgs =
     (case find (\<lambda>m. role m = js ''user'') msgs of None \<Rightarrow> [] | Some m \<Rightarrow> content m)"

definition gemini_parts :: "gemini_data \<Rightarrow> part list" where
  "gemini_parts data =
     (case candidates data of
        None \<Rightarrow> []
      | Some [] \<Rightarrow> []
      | Some (c # _) \<Rightarrow>
          (case c_content c of
             None \<Rightarrow> []
           | Some ct \<Rightarrow> (case parts ct of None \<Rightarrow> [] | Some ps \<Rightarrow> ps)))"

definition gemini_text :: "gemini_data \<Rightarrow> jsstring" where
  "gemini_text data = concat (map (\<lambda>p. or_empty (p_text p)) (gemini_parts data))"

definition gemini_prompt :: "request_body \<Rightarrow> chat_message list \<Rightarrow> jsstring" where
  "gemini_prompt b msgs =
     (if truthy (system b)
      then js ''SYSTEM INSTRUCTIONS:'' @ [LF] @ or_empty (system b) @ [LF, LF] @
           js ''USER REQUEST:'' @ [LF] @ userMessage msgs
      else userMessage msgs)"

definition gemini_try ::
  "(jsstring \<Rightarrow> gemini_data attempt) \<Rightarrow> request_body option attempt \<Rightarrow> response attempt" where
  "gemini_try fetch req_json =
     (case req_json of
        Throws e \<Rightarrow> Throws e
      | Returns None \<Rightarrow> Throws null_destructure
      | Returns (Some b) \<Rightarrow>
          (case messages b of
             None \<Rightarrow> Throws undefined_find
           | Some msgs \<Rightarrow>
               (case fetch (gemini_prompt b msgs) of
                  Throws e \<Rightarrow> Throws e
                | Returns data \<Rightarrow>
                    (case vendor_error (g_error data) of
                       Some err \<Rightarrow> Returns (json_response 400 (error_body err))
                     | None \<Rightarrow> Returns (json_response 200 (envelope (gemini_text data)))))))"

definition handler_gemini ::
  "(jsstring \<Rightarrow> gemini_data attempt) \<Rightarrow> string \<Rightarrow> request_body option attempt \<Rightarrow> response" where
  "handler_gemini fetch method req_json =
     (if method = ''OPTIONS'' then options_response
      else if method \<noteq> ''POST'' then
        \<lparr>status = 405,
         headers = [(''Content-Type'', ''application/json'')],
         body = Some (error_body (JStr (js ''Method not allowed'')))\<rparr>
      else
        (case gemini_try fetch req_json of
           Returns r \<Rightarrow> r
         | Throws e \<Rightarrow> json_response 500 (error_body (JStr (exn_message e)))))"

subsection \<open>src/unnamed/part_000\<close>

text \<open>
  The second Gemini handler.
  \<^verbatim>\<open>
  const text = data.candidates?.[0]?.content?.parts?.[0]?.text || '';
  \<close>
\<close>

definition part_000_text :: "gemini_data \<Rightarrow> jsstring" where
  "part_000_text data =
     (case candidates data of
        None \<Rightarrow> []
      | Some [] \<Rightarrow> []
      | Some (c # _) \<Rightarrow>
          (case c_content c of
             None \<Rightarrow> []
           | Some ct \<Rightarrow>
               (case parts ct of
                  None \<Rightarrow> []
                | Some [] \<Rightarrow> []
                | Some (p # _) \<Rightarrow> or_empty (p_text p))))"

definition part_000_prompt :: "request_body \<Rightarrow> chat_message list \<Rightarrow> jsstring" where
  "part_000_prompt b msgs =
     (if truthy (system b) then or_empty (system b) @ [LF, LF] @ userMessage msgs
      else userMessage msgs)"

definition part_000_try ::
  "(jsstring \<Rightarrow> gemini_data attempt) \<Rightarrow> request_body option attempt \<Rightarrow> response attempt" where
  "part_000_try fetch req_json =
     (case req_json of
        Throws e \<Rightarrow> Throws e
      | Returns None \<Rightarrow> Throws null_destructure
      | Returns (Some b) \<Rightarrow>
          (case messages b of
             None \<Rightarrow> Throws undefined_find
           | Some msgs \<Rightarrow>
               (case fetch (part_000_prompt b msgs) of
                  Throws e \<Rightarrow> Throws e
                | Returns data \<Rightarrow>
                    (let transformedResponse = envelope (part_000_text data) in
                     case vendor_error (g_error data) of
                       Some err \<Rightarrow> Returns (json_response 400 (error_body err))
                     | None \<Rightarrow> Returns (json_response 200 transformedResponse)))))"

definition handler_part_000 ::
  "(jsstring \<Rightarrow> gemini_data attempt) \<Rightarrow> string \<Rightarrow> request_body option attempt \<Rightarrow> response" where
  "handler_part_000 fetch method req_json =
     (if method = ''OPTIONS'' then options_response
      else if method \<noteq> ''POST'' then
        \<lparr>status = 405,
         headers = [(''Content-Type'', ''application/json'')],
         body = Some (error_body (JStr (js ''Method not allowed'')))\<rparr>
      else
        (case part_000_try fetch req_json of
           Returns r \<Rightarrow> r
         | Throws e \<Rightarrow> json_response 500 (error_body (JStr (exn_message e)))))"

subsection \<open>src/unnamed/part_001\<close>

text \<open>
  The Groq handler. \<open>parse\<close> stands for \<open>JSON.parse\<close>; \<open>repair_response\<close> is the handler
  from \<open>const candidateJson = extractJsonObject(rawText)\<close> to the end of the \<open>try\<close> block.
\<close>

definition final_guard :: chat_message where
  "final_guard =
     \<lparr>role = js ''user'',
      content =
        js ''FINAL OUTPUT REQUIREMENTS:'' @ [LF] @
        js ''- Output ONLY valid JSON.'' @ [LF] @
        js ''- Do NOT use the double quote character ('' @ [QUOTE] @
        js '') inside post text. Use single quotes instead.'' @ [LF] @
        js ''- Do NOT include trailing commas.'' @ [LF] @
        js ''- Any line breaks inside JSON strings must be written as '' @ [BACKSLASH] @
        js ''n, not real newlines.'' @ [LF]\<rparr>"

definition groqMessages :: "request_body option \<Rightarrow> chat_message list" where
  "groqMessages b =
     (case b of
        None \<Rightarrow> [final_guard]
      | Some b' \<Rightarrow>
          (if truthy (system b') then [\<lparr>role = js ''system'', content = or_empty (system b')\<rparr>] else []) @
          (case messages b' of None \<Rightarrow> [] | Some msgs \<Rightarrow> msgs) @
          [final_guard])"

definition rawText :: "groq_data \<Rightarrow> jsstring" where
  "rawText data =
     (case choices data of
        None \<Rightarrow> []
      | Some [] \<Rightarrow> []
      | Some (c # _) \<Rightarrow>
          (case message c of None \<Rightarrow> [] | Some m \<Rightarrow> or_empty (cm_content m)))"

definition repair_response :: "(jsstring \<Rightarrow> json attempt) \<Rightarrow> jsstring \<Rightarrow> response" where
  "repair_response parse raw =
     (let fallback = json_response 200 (envelope raw) in
      case extractJsonObject raw of
        None \<Rightarrow> fallback
      | Some candidateJson \<Rightarrow>
          if candidateJson = [] then fallback
          else
            (let cleaned = escapeNewlinesInsideStrings (sanitizeCommonBreakers candidateJson) in
             case parse cleaned of
               Returns parsed \<Rightarrow> json_response 200 parsed
             | Throws e \<Rightarrow> fallback))"

definition part_001_try ::
  "(jsstring \<Rightarrow> json attempt) \<Rightarrow> (chat_message list \<Rightarrow> groq_data attempt) \<Rightarrow>
   request_body option attempt \<Rightarrow> response attempt" where
  "part_001_try parse fetch req_json =
     (case req_json of
        Throws e \<Rightarrow> Throws e
      | Returns b \<Rightarrow>
          (case fetch (groqMessages b) of
             Throws e \<Rightarrow> Throws e
           | Returns data \<Rightarrow>
               (case vendor_error (q_error data) of
                  Some err \<Rightarrow> Returns (json_response 400 (error_body err))
                | None \<Rightarrow> Returns (repair_response parse (rawText data)))))"

definition handler_part_001 ::
  "(jsstring \<Rightarrow> json attempt) \<Rightarrow> (chat_message list \<Rightarrow> groq_data attempt) \<Rightarrow> string \<Rightarrow>
   request_body option attempt \<Rightarrow> response" where
  "handler_part_001 parse fetch method req_json =
     (if method = ''OPTIONS'' then options_response
      else if method \<noteq> ''POST'' then json_response 405 (error_body (JStr (js ''Method not allowed'')))
      else
        (case part_001_try parse fetch req_json of
           Returns r \<Rightarrow> r
         | Throws e \<Rightarrow>
             json_response 500
               (error_body (JStr (if exn_message e \<noteq> [] then exn_message e else exn_name e)))))"

text \<open>
  \<open>JSON.parse\<close> as an awaited-style operation: the SyntaxError's message is the
  engine's; the handler drops it.
\<close>

definition JSON_parse :: "jsstring \<Rightarrow> json attempt" where
  "JSON_parse s =
     (case json_parse s of None \<Rightarrow> Throws (Exn (js ''SyntaxError'') []) | Some v \<Rightarrow> Returns v)"

text \<open>The response carries the header \<open>k\<close> with the value \<open>v\<close>.\<close>

definition has_header :: "response \<Rightarrow> string \<Rightarrow> string \<Rightarrow> bool" where
  "has_header r k v = (map_of (headers r) k = Some v)"

section \<open>Notions of the specification\<close>

text \<open>
  Positions, as the specification names them: \<open>i\<close> is the first occurrence of \<open>c\<close>
  in \<open>t\<close>, \<open>j\<close> is the last one.
\<close>

definition first_at :: "jsstring \<Rightarrow> code_unit \<Rightarrow> nat \<Rightarrow> bool" where
  "first_at t c i = (i < length t \<and> t ! i = c \<and> c \<notin> set (take i t))"

definition last_at :: "jsstring \<Rightarrow> code_unit \<Rightarrow> nat \<Rightarrow> bool" where
  "last_at t c j = (j < length t \<and> t ! j = c \<and> c \<notin> set (drop (Suc j) t))"

text \<open>
  Some comma of the string is followed by white space only and then by a closing brace or
  bracket.
\<close>

definition trailing_here :: "jsstring \<Rightarrow> bool" where
  "trailing_here cs = (case dropWhile is_space cs of [] \<Rightarrow> False | d # rest \<Rightarrow> is_closer d)"

fun has_trailing_comma :: "jsstring \<Rightarrow> bool" where
  "has_trailing_comma [] = False"
| "has_trailing_comma (c # cs) = ((c = COMMA \<and> trailing_here cs) \<or> has_trailing_comma cs)"

section \<open>Examples\<close>

text \<open>The texts, values and upstream answers that the specification and the claims name.\<close>

definition end_to_end_raw :: jsstring where
  \<open>end_to_end_raw =
     js ''Here is the result:'' @ [LF] @ js ''{"title": "A'' @ [LF] @ js ''B", "tags": ["x",],}'' @ [LF] @
     js ''Thanks!''\<close>

definition end_to_end_upstream :: "chat_message list \<Rightarrow> groq_data attempt" where
  "end_to_end_upstream msgs =
     Returns \<lparr>q_error = None,
              choices = Some [\<lparr>message = Some \<lparr>cm_content = Some end_to_end_raw\<rparr>\<rparr>]\<rparr>"

definition end_to_end_candidate :: jsstring where
  \<open>end_to_end_candidate = js ''{"title": "A'' @ [LF] @ js ''B", "tags": ["x",],}''\<close>

definition end_to_end_cleaned :: jsstring where
  \<open>end_to_end_cleaned = js ''{"title": "A'' @ [BACKSLASH, LETTER_n] @ js ''B", "tags": ["x"]}''\<close>

definition end_to_end_value :: json where
  "end_to_end_value =
     JObj [(js ''title'', JStr (js ''A'' @ [LF] @ js ''B'')), (js ''tags'', JArr [JStr (js ''x'')])]"

definition comma_in_string :: jsstring where
  \<open>comma_in_string = js ''{"a": ",}"}''\<close>

definition two_parts_upstream :: "jsstring \<Rightarrow> gemini_data attempt" where
  "two_parts_upstream prompt =
     Returns \<lparr>g_error = None,
              candidates = Some [\<lparr>c_content = Some \<lparr>parts = Some
                [\<lparr>p_text = Some (js ''Hello, '')\<rparr>, \<lparr>p_text = Some (js ''world'')\<rparr>]\<rparr>\<rparr>]\<rparr>"

definition hello_request :: request_body where
  "hello_request = \<lparr>system = None, messages = Some [\<lparr>role = js ''user'', content = js ''Say hello''\<rparr>]\<rparr>"

definition comma_in_string_sanitized :: jsstring where
  \<open>comma_in_string_sanitized = js ''{"a": "}"}''\<close>

definition clean_json_example :: jsstring where
  \<open>clean_json_example = js ''{"a": [1, "x,y'' @ [BACKSLASH, LETTER_n] @ js ''z"], "b": null}''\<close>

definition clean_json_value :: json where
  "clean_json_value =
     JObj [(js ''a'', JArr [JNum (js ''1''), JStr (js ''x,y'' @ [LF] @ js ''z'')]), (js ''b'', JNull)]"

definition separator_before_brace :: jsstring where
  \<open>separator_before_brace = js ''{"a": 1,'' @ [LINE_SEP] @ js ''}''\<close>

definition separator_before_brace_sanitized :: jsstring where
  \<open>separator_before_brace_sanitized = js ''{"a": 1,'' @ [BACKSLASH, LETTER_n] @ js ''}''\<close>

definition spaced_example :: jsstring where
  \<open>spaced_example = js ''{ "a" : 1 }''\<close>

definition cr_in_string :: jsstring where
  "cr_in_string = [QUOTE, CR, QUOTE]"

definition escaped_quote_example :: jsstring where
  \<open>escaped_quote_example =
     js ''{"a": "he said '' @ [BACKSLASH, QUOTE] @ js ''hi'' @ [BACKSLASH, QUOTE] @ js ''"}''\<close>

definition newline_example :: jsstring where
  \<open>newline_example = js ''{"a": "line1'' @ [LF] @ js ''line2"}''\<close>

definition newline_repaired :: jsstring where
  \<open>newline_repaired = js ''{"a": "line1'' @ [BACKSLASH, LETTER_n] @ js ''line2"}''\<close>

definition no_json_raw :: jsstring where
  "no_json_raw = js ''I cannot produce JSON right now.''"

definition broken_json_raw :: jsstring where
  "broken_json_raw = js ''Sure: {title: A}''"

definition upstream_saying :: "jsstring \<Rightarrow> chat_message list \<Rightarrow> groq_data attempt" where
  "upstream_saying t msgs =
     Returns \<lparr>q_error = None, choices = Some [\<lparr>message = Some \<lparr>cm_content = Some t\<rparr>\<rparr>]\<rparr>"

definition crlf_example :: jsstring where
  \<open>crlf_example =
     js ''{'' @ [CR, LF] @ js ''  "a": 1,'' @ [CR, LF] @ js ''  "b": "x"'' @ [CR, LF] @ js ''}'' @ [CR, LF]\<close>

definition broken_json_candidate :: jsstring where
  "broken_json_candidate = js ''{title: A}''"

section \<open>Lemmas\<close>

subsection \<open>Index lemmas\<close>

lemma indexOf_ge: "- 1 \<le> indexOf t c"
  by (induction t) (auto simp: Let_def)

lemma indexOf_none: "indexOf t c = - 1 \<longleftrightarrow> c \<notin> set t"
proof (induction t)
  case Nil
  show ?case by simp
next
  case (Cons x xs)
  have "- 1 \<le> indexOf xs c" by (rule indexOf_ge)
  with Cons show ?case by (auto simp: Let_def)
qed

lemma indexOf_first: "c \<in> set t \<Longrightarrow> \<exists>i. indexOf t c = int i \<and> first_at t c i"
proof (induction t)
  case Nil
  then show ?case by simp
next
  case (Cons x xs)
  show ?case
  proof (cases "x = c")
    case True
    then have "indexOf (x # xs) c = int 0 \<and> first_at (x # xs) c 0"
      by (simp add: first_at_def)
    then show ?thesis by blast
  next
    case False
    with Cons.prems have "c \<in> set xs" by simp
    with Cons.IH obtain i where i: "indexOf xs c = int i" "first_at xs c i" by blast
    from False i have "indexOf (x # xs) c = int (Suc i) \<and> first_at (x # xs) c (Suc i)"
      by (simp add: first_at_def Let_def)
    then show ?thesis by blast
  qed
qed

lemma lastIndexOf_ge: "- 1 \<le> lastIndexOf t c"
  by (induction t) (auto simp: Let_def)

lemma lastIndexOf_none: "lastIndexOf t c = - 1 \<longleftrightarrow> c \<notin> set t"
proof (induction t)
  case Nil
  show ?case by simp
next
  case (Cons x xs)
  have "- 1 \<le> lastIndexOf xs c" by (rule lastIndexOf_ge)
  with Cons show ?case by (auto simp: Let_def)
qed

lemma lastIndexOf_last: "c \<in> set t \<Longrightarrow> \<exists>j. lastIndexOf t c = int j \<and> last_at t c j"
proof (induction t)
  case Nil
  then show ?case by simp
next
  case (Cons x xs)
  show ?case
  proof (cases "c \<in> set xs")
    case True
    with Cons.IH obtain j where j: "lastIndexOf xs c = int j" "last_at xs c j" by blast
    then have "lastIndexOf (x # xs) c = int (Suc j) \<and> last_at (x # xs) c (Suc j)"
      by (simp add: last_at_def Let_def)
    then show ?thesis by blast
  next
    case False
    with Cons.prems have xc: "x = c" by simp
    from False have "lastIndexOf xs c = - 1" by (simp add: lastIndexOf_none)
    with xc False have "lastIndexOf (x # xs) c = int 0 \<and> last_at (x # xs) c 0"
      by (simp add: last_at_def)
    then show ?thesis by blast
  qed
qed

lemma slice_inclusive:
  assumes "i < j" "j < length t"
  shows "slice t (int i) (int j + 1) = take (j + 1 - i) (drop i t)"
proof -
  from assms have "min (int j + 1) (int (length t)) = int j + 1"
    and "min (int i) (int (length t)) = int i"
    by simp_all
  moreover from assms have "nat (int j + 1 - int i) = j + 1 - i"
    by linarith
  ultimately show ?thesis
    by (simp add: slice_def Let_def)
qed

subsection \<open>The scanner as a function of its two flags\<close>

fun scan :: "bool \<Rightarrow> bool \<Rightarrow> jsstring \<Rightarrow> jsstring" where
  "scan i e [] = []"
| "scan i e (c # s) =
     (if i then
        (if e then c # scan True False s
         else if c = BACKSLASH then c # scan True True s
         else if c = QUOTE then c # scan False False s
         else if c = LF then BACKSLASH # LETTER_n # scan True False s
         else if c = CR then scan True False s
         else if c = TAB then BACKSLASH # LETTER_t # scan True False s
         else c # scan True False s)
      else (if c = QUOTE then c # scan True e s else c # scan False e s))"

fun ctx :: "bool \<Rightarrow> bool \<Rightarrow> jsstring \<Rightarrow> bool \<times> bool" where
  "ctx i e [] = (i, e)"
| "ctx i e (c # s) =
     (if i then
        (if e then ctx True False s
         else if c = BACKSLASH then ctx True True s
         else if c = QUOTE then ctx False False s
         else ctx True False s)
      else (if c = QUOTE then ctx True e s else ctx False e s))"

lemma run_Nil: "run st [] = st"
  by (simp add: run_def)

lemma run_Cons: "run st (c # cs) = run (step st c) cs"
  by (simp add: run_def)

lemma run_snoc: "run st (p @ [c]) = step (run st p) c"
  by (simp add: run_def)

lemma run_scan:
  "run \<lparr>out = acc, inString = i, escaped = e\<rparr> s =
     \<lparr>out = acc @ scan i e s, inString = fst (ctx i e s), escaped = snd (ctx i e s)\<rparr>"
  by (induction s arbitrary: acc i e) (simp_all add: run_Nil run_Cons step_def)

lemma escape_scan: "escapeNewlinesInsideStrings s = scan False False s"
  by (simp add: escapeNewlinesInsideStrings_def scanner_init_def run_scan)

lemma scan_idem: "scan i e (scan i e s) = scan i e s"
  by (induction s arbitrary: i e) simp_all

lemma ctx_scan: "ctx i e (scan i e s) = ctx i e s"
  by (induction s arbitrary: i e) simp_all

fun outs :: "bool \<Rightarrow> bool \<Rightarrow> jsstring \<Rightarrow> jsstring" where
  "outs i e [] = []"
| "outs i e (c # s) =
     (if i then
        (if e then outs True False s
         else if c = BACKSLASH then outs True True s
         else if c = QUOTE then outs False False s
         else outs True False s)
      else (if c = QUOTE then c # outs True e s else c # outs False e s))"

lemma outside_from_outs:
  "outside_from \<lparr>out = acc, inString = i, escaped = e\<rparr> s = outs i e s"
  by (induction s arbitrary: acc i e) (simp_all add: step_def)

lemma outs_scan: "outs i e (scan i e s) = outs i e s"
  by (induction s arbitrary: i e) simp_all

fun drops :: "bool \<Rightarrow> bool \<Rightarrow> jsstring \<Rightarrow> nat" where
  "drops i e [] = 0"
| "drops i e (c # s) =
     (if i then
        (if e then drops True False s
         else if c = BACKSLASH then drops True True s
         else if c = QUOTE then drops False False s
         else if c = CR then Suc (drops True False s)
         else drops True False s)
      else (if c = QUOTE then drops True e s else drops False e s))"

fun doubles :: "bool \<Rightarrow> bool \<Rightarrow> jsstring \<Rightarrow> nat" where
  "doubles i e [] = 0"
| "doubles i e (c # s) =
     (if i then
        (if e then doubles True False s
         else if c = BACKSLASH then doubles True True s
         else if c = QUOTE then doubles False False s
         else if c = LF \<or> c = TAB then Suc (doubles True False s)
         else doubles True False s)
      else (if c = QUOTE then doubles True e s else doubles False e s))"

lemma dropped_from_drops:
  "dropped_from \<lparr>out = acc, inString = i, escaped = e\<rparr> s = drops i e s"
  by (induction s arbitrary: acc i e) (simp_all add: step_def)

lemma doubled_from_doubles:
  "doubled_from \<lparr>out = acc, inString = i, escaped = e\<rparr> s = doubles i e s"
  by (induction s arbitrary: acc i e) (simp_all add: step_def)

lemma scan_length_exact: "length (scan i e s) + drops i e s = length s + doubles i e s"
  by (induction s arbitrary: i e) simp_all

lemma drops_le_count: "drops i e s \<le> count_list s CR"
  by (induction s arbitrary: i e) (auto simp: le_SucI)

subsection \<open>The scanner on valid JSON\<close>

lemma scan_no_quote: "QUOTE \<notin> set p \<Longrightarrow> scan False e (p @ r) = p @ scan False e r"
  by (induction p) simp_all

lemma hex_value_plain:
  "hex_value h = Some w \<Longrightarrow> h \<noteq> BACKSLASH \<and> h \<noteq> QUOTE \<and> h \<noteq> LF \<and> h \<noteq> CR \<and> h \<noteq> TAB"
  by (auto simp: hex_value_def split: if_splits)

lemma hex4_plain:
  assumes "hex4 a b c d = Some w"
  shows "scan True False (a # b # c # d # r) = a # b # c # d # scan True False r"
proof -
  from assms obtain x y z u where "hex_value a = Some x" "hex_value b = Some y"
    "hex_value c = Some z" "hex_value d = Some u"
    by (auto simp: hex4_def split: option.splits)
  then show ?thesis
    by (auto dest!: hex_value_plain)
qed

lemma lex_string_scan:
  "lex_string cs = Some (v, r) \<Longrightarrow> scan False False r = r \<Longrightarrow> scan True False cs = cs"
proof (induction cs arbitrary: v rule: lex_string.induct)
  case 1
  then show ?case by simp
next
  case (2 c cs)
  show ?case
  proof (cases "c = QUOTE")
    case True
    with "2.prems" show ?thesis by simp
  next
    case nq: False
    show ?thesis
    proof (cases "c = BACKSLASH")
      case True
      with nq "2.prems" obtain e cs1 where cs: "cs = e # cs1"
        by (cases cs) auto
      show ?thesis
      proof (cases "e = 0x75")
        case u: True
        with nq True cs "2.prems" obtain h1 h2 h3 h4 cs2 where cs1: "cs1 = h1 # h2 # h3 # h4 # cs2"
          by (auto split: list.splits)
        with nq True cs u "2.prems" obtain w where w: "hex4 h1 h2 h3 h4 = Some w"
          by (auto split: option.splits)
        with nq True cs u cs1 "2.prems" obtain v' where "lex_string cs2 = Some (v', r)"
          by (auto dest: cons_char_Some)
        with "2.IH"(1) [OF nq True cs u cs1 _ _ _ w] "2.prems"(2) have "scan True False cs2 = cs2"
          by blast
        with cs cs1 True u hex4_plain [OF w] show ?thesis by simp
      next
        case nu: False
        with nq True cs "2.prems" obtain w where w: "unescape e = Some w"
          by (auto split: option.splits)
        with nq True cs nu "2.prems" obtain v' where "lex_string cs1 = Some (v', r)"
          by (auto dest: cons_char_Some)
        with "2.IH"(2) [OF nq True cs nu w] "2.prems"(2) have "scan True False cs1 = cs1"
          by blast
        with cs True show ?thesis by simp
      qed
    next
      case nb: False
      with nq "2.prems" have ok: "\<not> c < 0x20"
        by (auto split: if_splits)
      then have plain: "c \<noteq> LF \<and> c \<noteq> CR \<and> c \<noteq> TAB" by auto
      from ok nq nb "2.prems" obtain v' where "lex_string cs = Some (v', r)"
        by (auto dest: cons_char_Some)
      with "2.IH"(3) [OF nq nb ok] "2.prems"(2) have "scan True False cs = cs"
        by blast
      with nq nb plain show ?thesis by simp
    qed
  qed
qed

lemma punctuator_plain: "punctuator c = Some t \<Longrightarrow> c \<noteq> QUOTE"
  by (auto simp: punctuator_def split: if_splits)

lemma next_token_scan:
  assumes "next_token cs = Some (t, r)" "scan False False r = r"
  shows "scan False False cs = cs"
proof (cases cs)
  case Nil
  with assms show ?thesis by (simp add: next_token_def)
next
  case (Cons c r0)
  show ?thesis
  proof (cases "punctuator c")
    case (Some p)
    with assms Cons have "r = r0" by (simp add: next_token_def)
    with assms Cons punctuator_plain [OF Some] show ?thesis by simp
  next
    case None
    show ?thesis
    proof (cases "c = QUOTE")
      case True
      with assms Cons None obtain v where "lex_string r0 = Some (v, r)"
        by (auto simp: next_token_def split: option.splits)
      then have "scan True False r0 = r0" using assms(2) by (rule lex_string_scan)
      with Cons True show ?thesis by simp
    next
      case nq: False
      show ?thesis
      proof (cases "c = 0x2D \<or> is_digit c")
        case True
        with assms Cons None nq obtain n where "lex_number cs = Some (n, r)"
          by (auto simp: next_token_def split: option.splits)
        then have "cs = n @ r \<and> QUOTE \<notin> set n" using lex_number_consumes by blast
        then show ?thesis using assms(2) scan_no_quote by metis
      next
        case False
        with assms Cons None nq have "lex_literal cs = Some (t, r)"
          by (auto simp: next_token_def)
        then obtain p where "cs = p @ r \<and> QUOTE \<notin> set p" using lex_literal_consumes by blast
        then show ?thesis using assms(2) scan_no_quote by metis
      qed
    qed
  qed
qed

lemma tokenize_scan: "tokenize s = Some ts \<Longrightarrow> scan False False s = s"
proof (induction s arbitrary: ts rule: tokenize.induct)
  case 1
  show ?case by simp
next
  case (2 c cs)
  show ?case
  proof (cases "is_json_ws c")
    case True
    with "2.prems" have "tokenize cs = Some ts" by simp
    with "2.IH"(1) [OF True] have "scan False False cs = cs" by blast
    moreover from True have "c \<noteq> QUOTE" by (auto simp: is_json_ws_def)
    ultimately show ?thesis by simp
  next
    case False
    with "2.prems" obtain t r where nt: "next_token (c # cs) = Some (t, r)"
      by (auto split: option.splits)
    with False "2.prems" obtain ts' where "tokenize r = Some ts'"
      by (auto split: option.splits)
    with "2.IH"(2) [OF False nt refl] have "scan False False r = r" by blast
    with nt show ?thesis by (rule next_token_scan)
  qed
qed

lemma json_parse_escape:
  "json_parse s = Some v \<Longrightarrow> escapeNewlinesInsideStrings s = s"
  by (auto simp: json_parse_def escape_scan split: option.splits dest: tokenize_scan)

subsection \<open>The sanitizer\<close>

lemma replace_unit_Nil [simp]: "replace_unit c r [] = []"
  by (simp add: replace_unit_def)

lemma replace_unit_Cons [simp]:
  "replace_unit c r (x # xs) = (if x = c then r else [x]) @ replace_unit c r xs"
  by (simp add: replace_unit_def)

lemma replace_unit_append: "replace_unit c r (a @ b) = replace_unit c r a @ replace_unit c r b"
  by (simp add: replace_unit_def)

lemma replace_unit_absent: "c \<notin> set s \<Longrightarrow> replace_unit c r s = s"
  by (induction s) auto

lemma closer_not_space: "is_closer d \<Longrightarrow> \<not> is_space d"
  by (auto simp: is_closer_def is_space_def)

lemma strip_no_trailing: "\<not> has_trailing_comma s \<Longrightarrow> strip_trailing_commas s = s"
proof (induction s rule: strip_trailing_commas.induct)
  case 1
  show ?case by simp
next
  case (2 c cs)
  from "2.prems" have rest: "\<not> has_trailing_comma cs" by simp
  show ?case
  proof (cases "c = COMMA")
    case False
    with "2.IH"(4) rest show ?thesis by simp
  next
    case True
    with "2.prems" have nt: "\<not> trailing_here cs" by simp
    show ?thesis
    proof (cases "dropWhile is_space cs")
      case Nil
      from True "2.IH"(1) [OF True Nil] rest show ?thesis by (simp add: Nil)
    next
      case (Cons d r)
      with nt have nc: "\<not> is_closer d" by (simp add: trailing_here_def)
      from True nc "2.IH"(3) [OF True Cons nc] rest show ?thesis by (simp add: Cons)
    qed
  qed
qed

lemma dropWhile_spaces:
  "\<forall>x \<in> set w. is_space x \<Longrightarrow> \<not> is_space d \<Longrightarrow> dropWhile is_space (w @ d # r) = d # r"
  by (induction w) auto

lemma strip_at_comma:
  assumes "\<forall>x \<in> set w. is_space x" "is_closer d"
  shows "strip_trailing_commas (COMMA # w @ d # r) = d # strip_trailing_commas r"
  using assms dropWhile_spaces [of w d r] closer_not_space [of d] by simp

lemma comma_plain: "\<not> is_space COMMA \<and> \<not> is_closer COMMA"
  by (simp add: is_space_def is_closer_def)

lemma strip_before_comma:
  "strip_trailing_commas (p @ COMMA # q) = strip_trailing_commas p @ strip_trailing_commas (COMMA # q)"
proof (induction p rule: strip_trailing_commas.induct)
  case 1
  show ?case by simp
next
  case (2 c cs)
  show ?case
  proof (cases "c = COMMA")
    case False
    with "2.IH"(4) show ?thesis by simp
  next
    case True
    show ?thesis
    proof (cases "dropWhile is_space cs")
      case Nil
      then have "\<forall>x \<in> set cs. is_space x" by (simp add: dropWhile_eq_Nil_conv)
      then have "dropWhile is_space (cs @ COMMA # q) = COMMA # q"
        using comma_plain by (simp add: dropWhile_spaces)
      with True "2.IH"(1) [OF True Nil] comma_plain show ?thesis by (simp add: Nil)
    next
      case (Cons d rest)
      then obtain x where "x \<in> set cs" "\<not> is_space x"
        by (metis dropWhile_eq_Nil_conv list.distinct(1))
      then have "dropWhile is_space (cs @ COMMA # q) = dropWhile is_space cs @ COMMA # q"
        by (rule dropWhile_append1)
      with Cons have d: "dropWhile is_space (cs @ COMMA # q) = d # rest @ COMMA # q"
        by simp
      show ?thesis
      proof (cases "is_closer d")
        case c: True
        with True d "2.IH"(2) [OF True Cons c] show ?thesis by (simp add: Cons)
      next
        case c: False
        with True d "2.IH"(3) [OF True Cons c] show ?thesis by (simp add: Cons)
      qed
    qed
  qed
qed

lemma sanitize_removes:
  assumes "\<forall>x \<in> set w. is_space x \<and> x \<noteq> LINE_SEP \<and> x \<noteq> PARA_SEP" "is_closer d"
  shows "sanitizeCommonBreakers (p @ COMMA # w @ d # r) =
         sanitizeCommonBreakers p @ d # sanitizeCommonBreakers r"
proof -
  let ?rep = "\<lambda>s. replace_unit PARA_SEP [BACKSLASH, LETTER_n] (replace_unit LINE_SEP [BACKSLASH, LETTER_n] s)"
  from assms(1) have "LINE_SEP \<notin> set w" and "PARA_SEP \<notin> set w"
    by auto
  then have w: "?rep w = w"
    by (simp add: replace_unit_absent)
  from assms(2) have d: "d \<noteq> LINE_SEP \<and> d \<noteq> PARA_SEP"
    by (auto simp: is_closer_def)
  have "?rep (p @ COMMA # w @ d # r) = ?rep p @ COMMA # ?rep w @ d # ?rep r"
    using d by (simp add: replace_unit_append)
  with w have "?rep (p @ COMMA # w @ d # r) = ?rep p @ COMMA # w @ d # ?rep r"
    by simp
  moreover from assms(1) have "\<forall>x \<in> set w. is_space x"
    by simp
  then have "strip_trailing_commas (COMMA # w @ d # ?rep r) = d # strip_trailing_commas (?rep r)"
    using assms(2) by (rule strip_at_comma)
  ultimately show ?thesis
    by (simp only: sanitizeCommonBreakers_def strip_before_comma append_Cons append_Nil)
qed

lemma sanitize_id:
  "LINE_SEP \<notin> set s \<Longrightarrow> PARA_SEP \<notin> set s \<Longrightarrow> \<not> has_trailing_comma s \<Longrightarrow> sanitizeCommonBreakers s = s"
  by (simp add: sanitizeCommonBreakers_def replace_unit_absent strip_no_trailing)

subsection \<open>The extractor and the repair pipeline\<close>

lemma extract_Some:
  assumes "extractJsonObject t = Some c"
  shows "\<exists>i j. i < j \<and> j < length t \<and> c = take (j + 1 - i) (drop i t)"
proof -
  from assms have a: "indexOf t LBRACE \<noteq> - 1" and b: "lastIndexOf t RBRACE \<noteq> - 1"
    and lt: "indexOf t LBRACE < lastIndexOf t RBRACE"
    by (auto simp: extractJsonObject_def Let_def split: if_splits)
  from a obtain i where i: "indexOf t LBRACE = int i"
    using indexOf_first indexOf_none by blast
  from b obtain j where j: "lastIndexOf t RBRACE = int j" "last_at t RBRACE j"
    using lastIndexOf_last lastIndexOf_none by blast
  from lt i j have ij: "i < j" by simp
  from j(2) have jt: "j < length t" by (simp add: last_at_def)
  from ij jt have "slice t (int i) (int j + 1) = take (j + 1 - i) (drop i t)"
    by (rule slice_inclusive)
  with assms i j(1) ij have "c = take (j + 1 - i) (drop i t)"
    by (simp add: extractJsonObject_def Let_def split: if_splits)
  with ij jt show ?thesis by blast
qed

lemma extract_nonempty: "extractJsonObject t = Some c \<Longrightarrow> c \<noteq> []"
  by (drule extract_Some) auto

lemma repair_response_cases:
  "repair_response parse raw =
     (case extractJsonObject raw of
        None \<Rightarrow> json_response 200 (envelope raw)
      | Some candidate \<Rightarrow>
          (case parse (escapeNewlinesInsideStrings (sanitizeCommonBreakers candidate)) of
             Returns parsed \<Rightarrow> json_response 200 parsed
           | Throws e \<Rightarrow> json_response 200 (envelope raw)))"
  by (auto simp: repair_response_def Let_def split: option.splits attempt.splits dest: extract_nonempty)

lemma repair_response_fields:
  "status (repair_response parse raw) = 200 \<and>
   headers (repair_response parse raw) =
     [(''Content-Type'', ''application/json''), (''Access-Control-Allow-Origin'', ''*'')] \<and>
   body (repair_response parse raw) =
     Some (case extractJsonObject raw of
             None \<Rightarrow>
               JObj [(js ''content'',
                      JArr [JObj [(js ''type'', JStr (js ''text'')), (js ''text'', JStr raw)]])]
           | Some candidate \<Rightarrow>
               (case parse (escapeNewlinesInsideStrings (sanitizeCommonBreakers candidate)) of
                  Returns parsed \<Rightarrow> parsed
                | Throws e \<Rightarrow>
                    JObj [(js ''content'',
                           JArr [JObj [(js ''type'', JStr (js ''text'')), (js ''text'', JStr raw)]])]))"
  by (simp add: repair_response_cases json_response_def envelope_def
      split: option.split attempt.split)

lemma handler_part_001_repairs:
  "fetch (groqMessages b) = Returns data \<Longrightarrow> vendor_error (q_error data) = None \<Longrightarrow>
   handler_part_001 parse fetch ''POST'' (Returns b) = repair_response parse (rawText data)"
  by (simp add: handler_part_001_def part_001_try_def)

subsection \<open>Steps of the scanner\<close>

lemma step_newline:
  "inString st \<Longrightarrow> \<not> escaped st \<Longrightarrow> step st LF = st\<lparr>out := out st @ [BACKSLASH, LETTER_n]\<rparr>"
  by (simp add: step_def)

lemma run_escape_pair:
  "inString st \<Longrightarrow> \<not> escaped st \<Longrightarrow> run st [BACKSLASH, ch] = st\<lparr>out := out st @ [BACKSLASH, ch]\<rparr>"
  by (simp add: run_Cons run_Nil step_def)

lemma step_outside: "\<not> inString st \<Longrightarrow> out (step st ch) = out st @ [ch]"
  by (simp add: step_def)

lemma escape_length_exact:
  "length (escapeNewlinesInsideStrings s) + dropped s = length s + doubled s"
  by (simp add: escape_scan dropped_def doubled_def scanner_init_def dropped_from_drops
      doubled_from_doubles scan_length_exact)

lemma dropped_le_count: "dropped s \<le> count_list s CR"
  by (simp add: dropped_def scanner_init_def dropped_from_drops drops_le_count)

lemma escape_outside: "outside (escapeNewlinesInsideStrings s) = outside s"
  by (simp add: outside_def scanner_init_def outside_from_outs escape_scan outs_scan)

subsection \<open>The texts of the Gemini handlers\<close>

lemma gemini_js_concatenates:
  assumes "candidates data = Some (c # cs)" "c_content c = Some ct" "parts ct = Some ps"
  shows "gemini_text data = concat (map (\<lambda>p. or_empty (p_text p)) ps)"
  using assms by (simp add: gemini_text_def gemini_parts_def)

lemma part_000_first_only:
  assumes "candidates data = Some (c # cs)" "c_content c = Some ct" "parts ct = Some (p # ps)"
  shows "part_000_text data = or_empty (p_text p)"
  using assms by (simp add: part_000_text_def)

subsection \<open>Headers\<close>

lemma json_response_headers:
  "has_header (json_response code v) ''Access-Control-Allow-Origin'' ''*'' \<and>
   has_header (json_response code v) ''Content-Type'' ''application/json''"
  by (simp add: has_header_def json_response_def)

lemma options_response_headers:
  "has_header options_response ''Access-Control-Allow-Origin'' ''*'' \<and>
   map_of (headers options_response) ''Content-Type'' = None"
  by (simp add: has_header_def options_response_def)

lemma repair_response_json: "\<exists>v. repair_response parse raw = json_response 200 v"
  by (auto simp: repair_response_def Let_def split: option.splits attempt.splits)

lemma part_001_try_json:
  "part_001_try parse fetch req = Returns r \<Longrightarrow> \<exists>code v. r = json_response code v"
  using repair_response_json [of parse]
  by (auto simp: part_001_try_def split: attempt.splits option.splits) metis

lemma gemini_try_json:
  "gemini_try fetch req = Returns r \<Longrightarrow> \<exists>code v. r = json_response code v"
  by (auto simp: gemini_try_def split: attempt.splits option.splits)

lemma part_000_try_json:
  "part_000_try fetch req = Returns r \<Longrightarrow> \<exists>code v. r = json_response code v"
  by (auto simp: part_000_try_def Let_def split: attempt.splits option.splits)

lemma handler_part_001_shape:
  "handler_part_001 parse fetch method req = options_response \<and> method = ''OPTIONS'' \<or>
   (\<exists>code v. handler_part_001 parse fetch method req = json_response code v) \<and> method \<noteq> ''OPTIONS''"
  by (auto simp: handler_part_001_def split: attempt.splits dest: part_001_try_json)

lemma handler_gemini_post_shape:
  "\<exists>code v. handler_gemini fetch ''POST'' req = json_response code v"
  by (auto simp: handler_gemini_def split: attempt.splits dest: gemini_try_json)

lemma handler_part_000_post_shape:
  "\<exists>code v. handler_part_000 fetch ''POST'' req = json_response code v"
  by (auto simp: handler_part_000_def split: attempt.splits dest: part_000_try_json)

lemma handler_gemini_options: "handler_gemini fetch ''OPTIONS'' req = options_response"
  by (simp add: handler_gemini_def)

lemma handler_part_000_options: "handler_part_000 fetch ''OPTIONS'' req = options_response"
  by (simp add: handler_part_000_def)

lemma handler_gemini_content_type:
  "method \<noteq> ''OPTIONS'' \<Longrightarrow> has_header (handler_gemini fetch method req) ''Content-Type'' ''application/json''"
proof (cases "method = ''POST''")
  case True
  then show ?thesis
    using handler_gemini_post_shape [of fetch req] json_response_headers by auto
next
  case False
  assume "method \<noteq> ''OPTIONS''"
  with False show ?thesis by (simp add: handler_gemini_def has_header_def)
qed

lemma handler_part_000_content_type:
  "method \<noteq> ''OPTIONS'' \<Longrightarrow> has_header (handler_part_000 fetch method req) ''Content-Type'' ''application/json''"
proof (cases "method = ''POST''")
  case True
  then show ?thesis
    using handler_part_000_post_shape [of fetch req] json_response_headers by auto
next
  case False
  assume "method \<noteq> ''OPTIONS''"
  with False show ?thesis by (simp add: handler_part_000_def has_header_def)
qed

lemma gemini_405_no_cors:
  "method \<noteq> ''OPTIONS'' \<Longrightarrow> method \<noteq> ''POST'' \<Longrightarrow>
   map_of (headers (handler_gemini fetch method req)) ''Access-Control-Allow-Origin'' = None \<and>
   map_of (headers (handler_part_000 fetch method req)) ''Access-Control-Allow-Origin'' = None"
  by (simp add: handler_gemini_def handler_part_000_def)

subsection \<open>The examples, evaluated\<close>

lemma end_to_end_extract: "extractJsonObject end_to_end_raw = Some end_to_end_candidate"
  unfolding end_to_end_raw_def end_to_end_candidate_def by code_simp

lemma end_to_end_clean:
  "escapeNewlinesInsideStrings (sanitizeCommonBreakers end_to_end_candidate) = end_to_end_cleaned"
  unfolding end_to_end_candidate_def end_to_end_cleaned_def by code_simp

lemma end_to_end_parse: "JSON_parse end_to_end_cleaned = Returns end_to_end_value"
  unfolding end_to_end_cleaned_def end_to_end_value_def by code_simp

lemma comma_in_string_parses: "json_parse comma_in_string = Some (JObj [(js ''a'', JStr (js '',}''))])"
  unfolding comma_in_string_def by code_simp

lemma comma_in_string_cleaned:
  "escapeNewlinesInsideStrings (sanitizeCommonBreakers comma_in_string) = comma_in_string_sanitized"
  unfolding comma_in_string_def comma_in_string_sanitized_def by code_simp

lemma comma_in_string_sanitized_parses: "json_parse comma_in_string_sanitized = Some (JObj [(js ''a'', JStr (js ''}''))])"
  unfolding comma_in_string_sanitized_def by code_simp

lemma comma_in_string_changed: "comma_in_string_sanitized \<noteq> comma_in_string"
  unfolding comma_in_string_def comma_in_string_sanitized_def by code_simp

lemma clean_json_example_parses: "json_parse clean_json_example = Some clean_json_value"
  unfolding clean_json_example_def clean_json_value_def by code_simp

lemma clean_json_example_no_separator: "LINE_SEP \<notin> set clean_json_example \<and> PARA_SEP \<notin> set clean_json_example"
  unfolding clean_json_example_def by code_simp

lemma clean_json_example_no_trailing_comma: "\<not> has_trailing_comma clean_json_example"
  unfolding clean_json_example_def by code_simp

lemma separator_is_space: "is_space LINE_SEP \<and> is_closer RBRACE"
  by (simp add: is_space_def is_closer_def)

lemma separator_before_brace_out: "sanitizeCommonBreakers separator_before_brace = separator_before_brace_sanitized"
  unfolding separator_before_brace_def separator_before_brace_sanitized_def by code_simp

lemma trailing_comma_example: \<open>sanitizeCommonBreakers (js ''{"a": 1,}'') = js ''{"a": 1}''\<close>
  by code_simp

lemma separator_pieces:
  \<open>sanitizeCommonBreakers (js ''{"a": 1'') @ RBRACE # sanitizeCommonBreakers [] = js ''{"a": 1}''\<close>
  by code_simp

lemma separator_not_removed: \<open>separator_before_brace_sanitized \<noteq> js ''{"a": 1}''\<close>
  unfolding separator_before_brace_sanitized_def by code_simp

lemma separator_before_brace_shape: \<open>separator_before_brace = js ''{"a": 1'' @ COMMA # [LINE_SEP] @ RBRACE # []\<close>
  unfolding separator_before_brace_def by code_simp

lemma bracket_pieces: \<open>sanitizeCommonBreakers (js ''[1'') = js ''[1'' \<and> sanitizeCommonBreakers [] = []\<close>
  by code_simp

lemma escaped_quote_copied: "escapeNewlinesInsideStrings escaped_quote_example = escaped_quote_example"
  unfolding escaped_quote_example_def by code_simp

lemma escaped_quote_trace: "inString_trace scanner_init escaped_quote_example =
     [False, False, True, True, False, False, False] @ replicate 15 True @ [False]"
  unfolding escaped_quote_example_def by code_simp

lemma cr_in_string_out: "escapeNewlinesInsideStrings cr_in_string = [QUOTE, QUOTE]"
  unfolding cr_in_string_def by code_simp

lemma crlf_example_facts:
  "dropped crlf_example = 0 \<and> count_list crlf_example CR = 4 \<and>
   escapeNewlinesInsideStrings crlf_example = crlf_example"
  unfolding crlf_example_def by code_simp

lemma cr_in_string_dropped: "dropped cr_in_string = 1 \<and> doubled cr_in_string = 0"
  unfolding cr_in_string_def by code_simp

lemma no_json_extract: "extractJsonObject no_json_raw = None"
  unfolding no_json_raw_def by code_simp

lemma broken_json_extract: "extractJsonObject broken_json_raw = Some broken_json_candidate"
  unfolding broken_json_raw_def broken_json_candidate_def by code_simp

lemma broken_json_throws:
  "JSON_parse (escapeNewlinesInsideStrings (sanitizeCommonBreakers broken_json_candidate)) =
     Throws (Exn (js ''SyntaxError'') [])"
  unfolding broken_json_candidate_def by code_simp

lemma spaced_example_outside: \<open>CR \<notin> set spaced_example \<and> outside spaced_example = js ''{ " : 1 }''\<close>
  unfolding spaced_example_def by code_simp

lemma newline_example_out: "escapeNewlinesInsideStrings newline_example = newline_repaired"
  by (simp add: escape_scan newline_example_def newline_repaired_def js_def)

text \<open>Before the repair the raw newline makes the example invalid JSON.\<close>

lemma newline_example_invalid: "json_parse newline_example = None"
  unfolding newline_example_def by code_simp

lemma newline_repaired_parses: "json_parse newline_repaired = Some (JObj [(js ''a'', JStr (js ''line1'' @ [LF] @ js ''line2''))])"
  unfolding newline_repaired_def by code_simp

lemma newline_prefix_state: \<open>run scanner_init (js ''{"a": "line1'') = \<lparr>out = js ''{"a": "line1'', inString = True, escaped = False\<rparr>\<close>
  by (simp add: scanner_init_def run_scan js_def)

section \<open>Claims\<close>

text \<open>
  C1. The repair pipeline of the Groq handler never raises. For every raw text and
  whatever \<open>JSON.parse\<close> does, the response has status 200 and the two JSON headers, and
  its body is the parsed value where a candidate is found and parses, and otherwise, where
  no candidate is found or the parser throws, the fallback envelope
  \<open>{content: [{type: "text", text: raw}]}\<close> around the raw text. Once the upstream has
  answered without a truthy error, this response is the handler's.
\<close>

theorem C1_repair_never_raises:
  "status (repair_response parse raw) = 200 \<and>
   headers (repair_response parse raw) =
     [(''Content-Type'', ''application/json''), (''Access-Control-Allow-Origin'', ''*'')] \<and>
   body (repair_response parse raw) =
     Some (case extractJsonObject raw of
             None \<Rightarrow>
               JObj [(js ''content'',
                      JArr [JObj [(js ''type'', JStr (js ''text'')), (js ''text'', JStr raw)]])]
           | Some candidate \<Rightarrow>
               (case parse (escapeNewlinesInsideStrings (sanitizeCommonBreakers candidate)) of
                  Returns parsed \<Rightarrow> parsed
                | Throws e \<Rightarrow>
                    JObj [(js ''content'',
                           JArr [JObj [(js ''type'', JStr (js ''text'')), (js ''text'', JStr raw)]])])) \<and>
   (fetch (groqMessages b) = Returns data \<and> vendor_error (q_error data) = None \<longrightarrow>
      handler_part_001 parse fetch ''POST'' (Returns b) = repair_response parse (rawText data))"
  using repair_response_fields [of parse raw] handler_part_001_repairs [of fetch b data parse]
  by blast

text \<open>
  C1 on its three paths: the end-to-end example of the specification, prose around an
  object with a raw newline in a string and two trailing commas, is repaired and parsed;
  a text without braces and a text whose candidate does not parse come back in the
  fallback envelope.
\<close>

theorem C1_repair_never_raises_witness:
  "status (handler_part_001 JSON_parse end_to_end_upstream ''POST'' (Returns None)) = 200 \<and>
   body (handler_part_001 JSON_parse end_to_end_upstream ''POST'' (Returns None)) =
     Some end_to_end_value \<and>
   status (handler_part_001 JSON_parse (upstream_saying no_json_raw) ''POST'' (Returns None)) = 200 \<and>
   body (handler_part_001 JSON_parse (upstream_saying no_json_raw) ''POST'' (Returns None)) =
     Some (JObj [(js ''content'',
                  JArr [JObj [(js ''type'', JStr (js ''text'')), (js ''text'', JStr no_json_raw)]])]) \<and>
   status (handler_part_001 JSON_parse (upstream_saying broken_json_raw) ''POST'' (Returns None)) = 200 \<and>
   body (handler_part_001 JSON_parse (upstream_saying broken_json_raw) ''POST'' (Returns None)) =
     Some (JObj [(js ''content'',
                  JArr [JObj [(js ''type'', JStr (js ''text'')), (js ''text'', JStr broken_json_raw)]])])"
proof -
  let ?d = "\<lambda>t. \<lparr>q_error = None, choices = Some [\<lparr>message = Some \<lparr>cm_content = Some t\<rparr>\<rparr>]\<rparr>"
  have raw: "rawText (?d t) = t" for t
    by (simp add: rawText_def or_empty_def)
  have a: "status (handler_part_001 JSON_parse end_to_end_upstream ''POST'' (Returns None)) = 200 \<and>
      body (handler_part_001 JSON_parse end_to_end_upstream ''POST'' (Returns None)) = Some end_to_end_value"
    using C1_repair_never_raises [of JSON_parse end_to_end_raw end_to_end_upstream None "?d end_to_end_raw"]
    by (simp add: end_to_end_upstream_def raw vendor_error_def end_to_end_extract end_to_end_clean end_to_end_parse)
  have b: "status (handler_part_001 JSON_parse (upstream_saying no_json_raw) ''POST'' (Returns None)) = 200 \<and>
      body (handler_part_001 JSON_parse (upstream_saying no_json_raw) ''POST'' (Returns None)) =
        Some (JObj [(js ''content'',
                  JArr [JObj [(js ''type'', JStr (js ''text'')), (js ''text'', JStr no_json_raw)]])])"
    using C1_repair_never_raises [of JSON_parse no_json_raw "upstream_saying no_json_raw" None "?d no_json_raw"]
    by (simp add: upstream_saying_def raw vendor_error_def no_json_extract)
  have c: "status (handler_part_001 JSON_parse (upstream_saying broken_json_raw) ''POST'' (Returns None)) = 200 \<and>
      body (handler_part_001 JSON_parse (upstream_saying broken_json_raw) ''POST'' (Returns None)) =
        Some (JObj [(js ''content'',
                  JArr [JObj [(js ''type'', JStr (js ''text'')), (js ''text'', JStr broken_json_raw)]])])"
    using C1_repair_never_raises [of JSON_parse broken_json_raw "upstream_saying broken_json_raw" None "?d broken_json_raw"]
    by (simp add: upstream_saying_def raw vendor_error_def broken_json_extract broken_json_throws)
  from a b c show ?thesis by blast
qed

text \<open>
  C2 as stated fails. The valid JSON text \<open>{"a": ",}"}\<close> has a comma followed by a closing
  brace inside a string; the sanitizer removes that comma, so the text and its parsed value
  change.
\<close>

theorem C2_roundtrip_counterexample:
  "json_parse comma_in_string = Some (JObj [(js ''a'', JStr (js '',}''))]) \<and>
   escapeNewlinesInsideStrings (sanitizeCommonBreakers comma_in_string) \<noteq> comma_in_string \<and>
   json_parse (escapeNewlinesInsideStrings (sanitizeCommonBreakers comma_in_string))
     \<noteq> json_parse comma_in_string"
  by (simp add: comma_in_string_parses comma_in_string_cleaned
      comma_in_string_sanitized_parses comma_in_string_changed js_def)

text \<open>
  C2, amended. For every syntactically valid JSON text that contains neither U+2028 nor
  U+2029 and in which no comma is followed by white space only and then a closing brace
  or bracket, the sanitizer followed by the scanner gives the text back unchanged, and
  parsing the result succeeds with the same value.
\<close>

theorem C2_roundtrip_amended:
  assumes "json_parse s = Some v"
    and "LINE_SEP \<notin> set s" and "PARA_SEP \<notin> set s"
    and "\<not> has_trailing_comma s"
  shows "escapeNewlinesInsideStrings (sanitizeCommonBreakers s) = s \<and>
         json_parse (escapeNewlinesInsideStrings (sanitizeCommonBreakers s)) = Some v"
proof -
  from assms(2-4) have "sanitizeCommonBreakers s = s" by (rule sanitize_id)
  moreover from assms(1) have "escapeNewlinesInsideStrings s = s" by (rule json_parse_escape)
  ultimately show ?thesis using assms(1) by simp
qed

text \<open>
  C2, amended, at a text with nested values and an escaped newline.
\<close>

theorem C2_roundtrip_amended_witness:
  "json_parse clean_json_example = Some clean_json_value \<and>
   LINE_SEP \<notin> set clean_json_example \<and> PARA_SEP \<notin> set clean_json_example \<and>
   \<not> has_trailing_comma clean_json_example \<and>
   escapeNewlinesInsideStrings (sanitizeCommonBreakers clean_json_example) = clean_json_example \<and>
   json_parse (escapeNewlinesInsideStrings (sanitizeCommonBreakers clean_json_example))
     = Some clean_json_value"
  using C2_roundtrip_amended [of clean_json_example clean_json_value]
    clean_json_example_parses clean_json_example_no_separator
    clean_json_example_no_trailing_comma
  by blast

text \<open>
  C3. Whenever the scanner is inside a string and not behind a backslash, a raw newline
  makes it append a backslash and the letter n and leaves its flags alone. The text
  \<open>{"a": "line1<LF>line2"}\<close> becomes \<open>{"a": "line1\nline2"}\<close>, which parses to the object
  whose member \<open>a\<close> is the two lines.
\<close>

theorem C3_newline_escaped:
  "(inString (run scanner_init p) \<and> \<not> escaped (run scanner_init p) \<longrightarrow>
      run scanner_init (p @ [LF]) =
        (run scanner_init p)\<lparr>out := out (run scanner_init p) @ [BACKSLASH, LETTER_n]\<rparr>) \<and>
   escapeNewlinesInsideStrings newline_example = newline_repaired \<and>
   json_parse newline_repaired = Some (JObj [(js ''a'', JStr (js ''line1'' @ [LF] @ js ''line2''))])"
  using newline_example_out newline_repaired_parses by (simp add: run_snoc step_newline)

text \<open>
  C3 at the prefix of the example that ends inside the string.
\<close>

theorem C3_newline_escaped_witness:
  \<open>inString (run scanner_init (js ''{"a": "line1'')) \<and> \<not> escaped (run scanner_init (js ''{"a": "line1'')) \<and>
   out (run scanner_init (js ''{"a": "line1'' @ [LF])) = js ''{"a": "line1'' @ [BACKSLASH, LETTER_n]\<close>
  using C3_newline_escaped [of \<open>js ''{"a": "line1''\<close>] by (simp add: newline_prefix_state)

text \<open>
  C4. Inside a string a backslash and the character behind it, a quote included, are
  copied and leave the scanner inside the string. On \<open>{"a": "he said \"hi\""}\<close> the text is
  copied unchanged and \<open>inString\<close> holds from the opening quote of the value to its closing
  quote, through both escaped quotes.
\<close>

theorem C4_escaped_quote_keeps_string:
  "(inString st \<and> \<not> escaped st \<longrightarrow>
      run st [BACKSLASH, ch] = st\<lparr>out := out st @ [BACKSLASH, ch]\<rparr>) \<and>
   escapeNewlinesInsideStrings escaped_quote_example = escaped_quote_example \<and>
   inString_trace scanner_init escaped_quote_example =
     [False, False, True, True, False, False, False] @ replicate 15 True @ [False]"
  using run_escape_pair [of st ch] escaped_quote_copied escaped_quote_trace by blast

text \<open>
  C4 at an escaped quote right behind an opening quote.
\<close>

theorem C4_escaped_quote_keeps_string_witness:
  "inString \<lparr>out = [QUOTE], inString = True, escaped = False\<rparr> \<and>
   \<not> escaped \<lparr>out = [QUOTE], inString = True, escaped = False\<rparr> \<and>
   run \<lparr>out = [QUOTE], inString = True, escaped = False\<rparr> [BACKSLASH, QUOTE] =
     \<lparr>out = [QUOTE, BACKSLASH, QUOTE], inString = True, escaped = False\<rparr>"
  using C4_escaped_quote_keeps_string [of "\<lparr>out = [QUOTE], inString = True, escaped = False\<rparr>" QUOTE]
  by simp

text \<open>
  C5. The extractor returns no candidate exactly when the text has no opening brace, or
  no closing brace, or its last closing brace does not come after its first opening
  brace; in every other case it returns the inclusive substring from the first opening
  brace through the last closing brace.
\<close>

theorem C5_extractJsonObject_spec:
  "(LBRACE \<notin> set t \<or> RBRACE \<notin> set t \<longrightarrow> extractJsonObject t = None) \<and>
   (LBRACE \<in> set t \<and> RBRACE \<in> set t \<longrightarrow>
      (\<exists>i j. first_at t LBRACE i \<and> last_at t RBRACE j \<and>
         (extractJsonObject t = None \<longleftrightarrow> j \<le> i) \<and>
         (i < j \<longrightarrow> extractJsonObject t = Some (take (j + 1 - i) (drop i t)))))"
proof (intro conjI impI)
  assume "LBRACE \<notin> set t \<or> RBRACE \<notin> set t"
  then have "indexOf t LBRACE = - 1 \<or> lastIndexOf t RBRACE = - 1"
    by (simp add: indexOf_none lastIndexOf_none)
  then show "extractJsonObject t = None"
    by (auto simp: extractJsonObject_def Let_def)
next
  assume both: "LBRACE \<in> set t \<and> RBRACE \<in> set t"
  from both obtain i where i: "indexOf t LBRACE = int i" "first_at t LBRACE i"
    using indexOf_first by blast
  from both obtain j where j: "lastIndexOf t RBRACE = int j" "last_at t RBRACE j"
    using lastIndexOf_last by blast
  have none: "extractJsonObject t = None \<longleftrightarrow> j \<le> i"
    using i(1) j(1) by (simp add: extractJsonObject_def Let_def)
  have some: "extractJsonObject t = Some (take (j + 1 - i) (drop i t))" if "i < j"
  proof -
    from j(2) have "j < length t" by (simp add: last_at_def)
    with that have "slice t (int i) (int j + 1) = take (j + 1 - i) (drop i t)"
      by (rule slice_inclusive)
    with that i(1) j(1) show ?thesis
      by (simp add: extractJsonObject_def Let_def)
  qed
  from some have some': "i < j \<longrightarrow> extractJsonObject t = Some (take (j + 1 - i) (drop i t))"
    by simp
  show "\<exists>i j. first_at t LBRACE i \<and> last_at t RBRACE j \<and>
         (extractJsonObject t = None \<longleftrightarrow> j \<le> i) \<and>
         (i < j \<longrightarrow> extractJsonObject t = Some (take (j + 1 - i) (drop i t)))"
    using i(2) j(2) none some' by (intro exI [of _ i] exI [of _ j] conjI)
qed

text \<open>
  C5 at a text with an object between prose, and at a text without braces.
\<close>

theorem C5_extractJsonObject_spec_witness:
  "LBRACE \<in> set (js ''ab{c}d'') \<and> RBRACE \<in> set (js ''ab{c}d'') \<and>
   (\<exists>i j. first_at (js ''ab{c}d'') LBRACE i \<and> last_at (js ''ab{c}d'') RBRACE j \<and>
      (extractJsonObject (js ''ab{c}d'') = None \<longleftrightarrow> j \<le> i) \<and>
      (i < j \<longrightarrow> extractJsonObject (js ''ab{c}d'') = Some (take (j + 1 - i) (drop i (js ''ab{c}d''))))) \<and>
   LBRACE \<notin> set (js ''no braces'') \<and> extractJsonObject (js ''no braces'') = None"
  using C5_extractJsonObject_spec [of "js ''ab{c}d''"] C5_extractJsonObject_spec [of "js ''no braces''"]
  by (simp add: js_def)

text \<open>
  C6 as stated fails. U+2028 is white space, but the sanitizer turns it into a backslash
  and the letter n before it looks for trailing commas: in \<open>{"a": 1,<U+2028>}\<close> the comma
  is followed by white space only and then a closing brace, and it stays.
\<close>

theorem C6_trailing_comma_counterexample:
  \<open>is_space LINE_SEP \<and> is_closer RBRACE \<and>
   sanitizeCommonBreakers (js ''{"a": 1'' @ COMMA # [LINE_SEP] @ RBRACE # []) \<noteq>
     sanitizeCommonBreakers (js ''{"a": 1'') @ RBRACE # sanitizeCommonBreakers [] \<and>
   sanitizeCommonBreakers (js ''{"a": 1'' @ COMMA # [LINE_SEP] @ RBRACE # []) =
     js ''{"a": 1,'' @ [BACKSLASH, LETTER_n] @ js ''}''\<close>
  using separator_is_space separator_before_brace_out separator_pieces separator_not_removed
  unfolding separator_before_brace_shape [symmetric] separator_before_brace_sanitized_def [symmetric]
  by simp

text \<open>
  C6, amended. The sanitizer removes every comma that is followed only by white space
  other than U+2028 and U+2029 and then a closing brace or bracket, together with that
  white space: what stands before the comma and what stands behind the closer are
  sanitized on their own. The text \<open>{"a": 1,}\<close> becomes \<open>{"a": 1}\<close>.
\<close>

theorem C6_trailing_comma_amended:
  \<open>((\<forall>x \<in> set w. is_space x \<and> x \<noteq> LINE_SEP \<and> x \<noteq> PARA_SEP) \<and> is_closer d \<longrightarrow>
      sanitizeCommonBreakers (p @ COMMA # w @ d # r) =
        sanitizeCommonBreakers p @ d # sanitizeCommonBreakers r) \<and>
   sanitizeCommonBreakers (js ''{"a": 1,}'') = js ''{"a": 1}''\<close>
  using sanitize_removes [of w d p r] trailing_comma_example by blast

text \<open>
  C6, amended, at a comma followed by a blank, a line feed and a closing bracket.
\<close>

theorem C6_trailing_comma_amended_witness:
  \<open>is_space 0x20 \<and> is_space LF \<and> is_closer RBRACKET \<and>
   sanitizeCommonBreakers (js ''[1'' @ COMMA # [0x20, LF] @ RBRACKET # []) = js ''[1'' @ [RBRACKET]\<close>
  using C6_trailing_comma_amended [of "[0x20, LF]" RBRACKET \<open>js ''[1''\<close> "[]"]
  by (simp add: is_space_def is_closer_def bracket_pieces)

text \<open>
  C7 as stated fails. A carriage return inside a string is dropped, so the output for
  a string of one carriage return between quotes is shorter than the input.
\<close>

theorem C7_length_counterexample:
  "length (escapeNewlinesInsideStrings cr_in_string) < length cr_in_string"
  by (simp add: cr_in_string_out) (simp add: cr_in_string_def)

text \<open>
  C7, amended. The scanner drops exactly the carriage returns that it reads inside a
  string and not behind a backslash, and writes two characters for each line feed or tab
  that it reads there: the length of the output is the length of the input, less the
  former, plus the latter. So the output is at least as long as any input without such a
  carriage return, wherever else carriage returns stand. The characters outside string
  context are the same, in the same order, in the output as in the input: outside a
  string every character is appended unchanged.
\<close>

theorem C7_length_and_outside_amended:
  "length (escapeNewlinesInsideStrings s) + dropped s = length s + doubled s \<and>
   (dropped s = 0 \<longrightarrow> length s \<le> length (escapeNewlinesInsideStrings s)) \<and>
   dropped s \<le> count_list s CR \<and>
   outside (escapeNewlinesInsideStrings s) = outside s \<and>
   (\<not> inString st \<longrightarrow> out (step st ch) = out st @ [ch])"
  using escape_length_exact [of s] dropped_le_count [of s] escape_outside [of s] step_outside [of st ch]
  by auto

text \<open>
  C7, amended, at a JSON text with four CRLF line ends outside strings, where nothing is
  dropped, at a carriage return inside a string, and at \<open>{ "a" : 1 }\<close> with its irregular
  white space.
\<close>

theorem C7_length_and_outside_amended_witness:
  \<open>dropped crlf_example = 0 \<and> count_list crlf_example CR = 4 \<and>
   length crlf_example \<le> length (escapeNewlinesInsideStrings crlf_example) \<and>
   outside (escapeNewlinesInsideStrings crlf_example) = outside crlf_example \<and>
   dropped cr_in_string = 1 \<and>
   length (escapeNewlinesInsideStrings cr_in_string) + 1 = length cr_in_string \<and>
   outside (escapeNewlinesInsideStrings spaced_example) = js ''{ " : 1 }'' \<and>
   \<not> inString scanner_init \<and> out (step scanner_init 0x20) = out scanner_init @ [0x20]\<close>
  using C7_length_and_outside_amended [of crlf_example scanner_init "0x20"]
    C7_length_and_outside_amended [of cr_in_string scanner_init "0x20"]
    C7_length_and_outside_amended [of spaced_example scanner_init "0x20"]
    crlf_example_facts cr_in_string_dropped spaced_example_outside
  by (simp add: scanner_init_def)

text \<open>
  C8 fails in the handler of src/unnamed/part_000. For an upstream answer with the two
  parts \<open>Hello, \<close> and \<open>world\<close> it returns the text of the first part only, where the handler
  of src/api/gemini.js returns the concatenation \<open>Hello, world\<close>.
\<close>

theorem C8_part_000_first_part_only:
  "handler_part_000 two_parts_upstream ''POST'' (Returns (Some hello_request)) =
     json_response 200 (envelope (js ''Hello, '')) \<and>
   handler_gemini two_parts_upstream ''POST'' (Returns (Some hello_request)) =
     json_response 200 (envelope (js ''Hello, world''))"
  by (simp add: handler_part_000_def part_000_try_def handler_gemini_def gemini_try_def
      two_parts_upstream_def hello_request_def part_000_text_def gemini_text_def gemini_parts_def
      or_empty_def vendor_error_def js_def)

text \<open>
  C9 as stated fails. The answer to an OPTIONS request has no body and no Content-Type
  header.
\<close>

theorem C9_headers_counterexample:
  "\<not> has_header (handler_part_001 JSON_parse end_to_end_upstream ''OPTIONS'' (Returns None))
       ''Content-Type'' ''application/json''"
  by (simp add: handler_part_001_def options_response_def has_header_def)

text \<open>
  C9, amended. Every response of the Groq handler carries
  \<open>Access-Control-Allow-Origin: *\<close>. In all three handlers every response to a method other
  than OPTIONS carries \<open>Content-Type: application/json\<close>, every response to OPTIONS or POST
  carries \<open>Access-Control-Allow-Origin: *\<close>, and the response to OPTIONS carries no
  Content-Type.
\<close>

theorem C9_headers_amended:
  "has_header (handler_part_001 parse fq meth rq) ''Access-Control-Allow-Origin'' ''*'' \<and>
   (meth \<noteq> ''OPTIONS'' \<longrightarrow>
      has_header (handler_part_001 parse fq meth rq) ''Content-Type'' ''application/json'' \<and>
      has_header (handler_gemini fg meth rq) ''Content-Type'' ''application/json'' \<and>
      has_header (handler_part_000 fg meth rq) ''Content-Type'' ''application/json'') \<and>
   (meth = ''OPTIONS'' \<or> meth = ''POST'' \<longrightarrow>
      has_header (handler_gemini fg meth rq) ''Access-Control-Allow-Origin'' ''*'' \<and>
      has_header (handler_part_000 fg meth rq) ''Access-Control-Allow-Origin'' ''*'') \<and>
   (meth = ''OPTIONS'' \<longrightarrow>
      map_of (headers (handler_part_001 parse fq meth rq)) ''Content-Type'' = None \<and>
      map_of (headers (handler_gemini fg meth rq)) ''Content-Type'' = None \<and>
      map_of (headers (handler_part_000 fg meth rq)) ''Content-Type'' = None)"
proof (intro conjI impI)
  show "has_header (handler_part_001 parse fq meth rq) ''Access-Control-Allow-Origin'' ''*''"
    using handler_part_001_shape [of parse fq meth rq] json_response_headers options_response_headers
    by auto
next
  assume "meth \<noteq> ''OPTIONS''"
  then show "has_header (handler_part_001 parse fq meth rq) ''Content-Type'' ''application/json''"
    using handler_part_001_shape [of parse fq meth rq] json_response_headers by auto
next
  assume "meth \<noteq> ''OPTIONS''"
  then show "has_header (handler_gemini fg meth rq) ''Content-Type'' ''application/json''"
    by (rule handler_gemini_content_type)
next
  assume "meth \<noteq> ''OPTIONS''"
  then show "has_header (handler_part_000 fg meth rq) ''Content-Type'' ''application/json''"
    by (rule handler_part_000_content_type)
next
  assume "meth = ''OPTIONS'' \<or> meth = ''POST''"
  then show "has_header (handler_gemini fg meth rq) ''Access-Control-Allow-Origin'' ''*''"
    using handler_gemini_post_shape [of fg rq] handler_gemini_options [of fg rq]
      json_response_headers options_response_headers by auto
next
  assume "meth = ''OPTIONS'' \<or> meth = ''POST''"
  then show "has_header (handler_part_000 fg meth rq) ''Access-Control-Allow-Origin'' ''*''"
    using handler_part_000_post_shape [of fg rq] handler_part_000_options [of fg rq]
      json_response_headers options_response_headers by auto
next
  assume "meth = ''OPTIONS''"
  then show "map_of (headers (handler_part_001 parse fq meth rq)) ''Content-Type'' = None"
    using options_response_headers by (simp add: handler_part_001_def)
next
  assume "meth = ''OPTIONS''"
  then show "map_of (headers (handler_gemini fg meth rq)) ''Content-Type'' = None"
    using options_response_headers by (simp add: handler_gemini_def)
next
  assume "meth = ''OPTIONS''"
  then show "map_of (headers (handler_part_000 fg meth rq)) ''Content-Type'' = None"
    using options_response_headers by (simp add: handler_part_000_def)
qed

text \<open>
  C9, amended, at POST and OPTIONS requests.
\<close>

theorem C9_headers_amended_witness:
  "has_header (handler_part_001 JSON_parse end_to_end_upstream ''POST'' (Returns None))
     ''Access-Control-Allow-Origin'' ''*'' \<and>
   has_header (handler_part_001 JSON_parse end_to_end_upstream ''POST'' (Returns None))
     ''Content-Type'' ''application/json'' \<and>
   has_header (handler_gemini two_parts_upstream ''POST'' (Returns None))
     ''Access-Control-Allow-Origin'' ''*'' \<and>
   has_header (handler_part_000 two_parts_upstream ''POST'' (Returns None))
     ''Content-Type'' ''application/json'' \<and>
   has_header (handler_gemini two_parts_upstream ''OPTIONS'' (Returns None))
     ''Access-Control-Allow-Origin'' ''*'' \<and>
   map_of (headers (handler_part_000 two_parts_upstream ''OPTIONS'' (Returns None)))
     ''Content-Type'' = None"
  using C9_headers_amended [of JSON_parse end_to_end_upstream "''POST''" "Returns None" two_parts_upstream]
    C9_headers_amended [of JSON_parse end_to_end_upstream "''OPTIONS''" "Returns None" two_parts_upstream]
  by simp

text \<open>
  C10. The scanner is idempotent: a second pass over its output changes nothing.
\<close>

theorem C10_escape_idempotent:
  "escapeNewlinesInsideStrings (escapeNewlinesInsideStrings s) = escapeNewlinesInsideStrings s"
  by (simp add: escape_scan scan_idem)

end
